theory Spec2Isabelle
  imports Complex_Main "HOL-Library.AList"
begin

section \<open>JavaScript values\<close>

text \<open>
  The design document, the constraints, validation results, decisions and conflict
  proposals are plain JSON data in the TypeScript source.  Numbers are IEEE doubles
  there; the model uses rationals, which is exact for the integer and dyadic values the
  furniture tables use.  An object is its list of entries in insertion order.
\<close>

datatype json =
    JNull
  | JBool bool
  | JNum rat
  | JStr string
  | JArr "json list"
  | JObj "(string \<times> json) list"

type_synonym obj = "(string \<times> json) list"


text \<open>Decimal rendering of an array index, as \<^verbatim>\<open>Object.entries\<close> names array slots.\<close>

function string_of_nat :: "nat \<Rightarrow> string" where
  "string_of_nat n =
     (if n < 10 then [char_of (48 + n)]
      else string_of_nat (n div 10) @ [char_of (48 + n mod 10)])"
  by pat_completeness auto
termination
  by (relation "measure id") auto

section \<open>The shared state store (SharedStateManager)\<close>

record state_change =
  agent :: string
  timestamp :: nat
  previous_value :: "json option"
  new_value :: json
  property_path :: string
  reason :: string

record design_constraints =
  dimensional :: obj
  material :: obj
  structural :: obj
  aesthetic :: obj
  budget :: obj

record shared_state =
  version :: nat
  design :: obj
  constraints :: design_constraints
  validation_results :: "(string \<times> json) list"
  agent_decisions :: "(string \<times> json) list"
  locked_properties :: "string list"
  history :: "state_change list"

record lock =
  lock_id :: string
  lock_agent :: string
  properties :: "string list"
  acquiredAt :: nat
  expiresAt :: nat

record state_snapshot =
  snap_version :: nat
  snap_timestamp :: nat
  snap_state :: shared_state

text \<open>
  The manager object.  \<open>locks\<close> is the \<^verbatim>\<open>Map<string, Lock>\<close> in insertion order,
  \<open>snapshots\<close> is the private \<^verbatim>\<open>history: StateSnapshot[]\<close>, and \<open>timers\<close> holds the
  pending \<^verbatim>\<open>setTimeout\<close> callbacks that auto-release a lock, each with the time at which
  it becomes due.  Subscribers, the React callback and the emitted events only observe
  the state and are left out, as is the snapshot hash, which nothing reads.  The version
  is a JavaScript number that is only ever incremented by one; it is counted in \<open>nat\<close>
  (such increments are exact below \<open>2 ^ 53\<close>).
\<close>

record manager =
  state :: shared_state
  locks :: "(string \<times> lock) list"
  snapshots :: "state_snapshot list"
  pendingChanges :: "state_change list"
  timers :: "(nat \<times> string) list"

definition MAX_HISTORY_SIZE :: nat where "MAX_HISTORY_SIZE = 100"
definition LOCK_TIMEOUT :: nat where "LOCK_TIMEOUT = 5000"

text \<open>\<^verbatim>\<open>xs.slice(-n)\<close>: the last \<open>n\<close> elements.\<close>

definition slice_last :: "nat \<Rightarrow> 'a list \<Rightarrow> 'a list" where
  "slice_last n xs = drop (length xs - n) xs"

definition initializeState :: shared_state where
  "initializeState =
     \<lparr> version = 0,
       design = [],
       constraints = \<lparr> dimensional = [], material = [],
         structural = [(''min_load_capacity'', JNum 50), (''min_safety_factor'', JNum 2),
                       (''stability_requirement'', JStr ''standard'')],
         aesthetic = [], budget = [] \<rparr>,
       validation_results = [],
       agent_decisions = [],
       locked_properties = [],
       history = [] \<rparr>"

text \<open>
  \<^verbatim>\<open>deepClone\<close> is a JSON round trip, which returns an equal value on JSON data
  (the replacer and reviver carry maps and sets through).
\<close>

definition deepClone :: "'a \<Rightarrow> 'a" where
  "deepClone x = x"

definition saveSnapshot :: "nat \<Rightarrow> manager \<Rightarrow> manager" where
  "saveSnapshot now m =
     (let snapshot = \<lparr> snap_version = version (state m), snap_timestamp = now,
                         snap_state = deepClone (state m) \<rparr>;
          h = snapshots m @ [snapshot]
      in m\<lparr>snapshots := (if length h > MAX_HISTORY_SIZE then slice_last MAX_HISTORY_SIZE h else h)\<rparr>)"

text \<open>The constructor: the initial state and its first snapshot.\<close>

definition new_manager :: "nat \<Rightarrow> manager" where
  "new_manager now =
     saveSnapshot now
       \<lparr> state = initializeState, locks = [], snapshots = [], pendingChanges = [], timers = [] \<rparr>"

subsection \<open>Updates\<close>

text \<open>
  The \<^verbatim>\<open>updates\<close> argument of \<^verbatim>\<open>updateState\<close>, with the four optional parts its type
  declares.  \<^verbatim>\<open>Object.entries(updates)\<close> is taken in the order of that declaration.
\<close>

record constraints_update =
  c_dimensional :: "obj option"
  c_material :: "obj option"
  c_structural :: "obj option"
  c_aesthetic :: "obj option"
  c_budget :: "obj option"

record validation_update =
  val_agent :: string
  val_result :: json

record agent_decision =
  agent_name :: string
  decision_type :: string
  decision_value :: json
  reasoning :: string
  confidence :: rat
  decision_timestamp :: nat
  alternatives_considered :: "json list option"

record updates =
  u_design :: "obj option"
  u_constraints :: "constraints_update option"
  u_validation :: "validation_update option"
  u_decision :: "agent_decision option"

definition opt_entry :: "string \<Rightarrow> json option \<Rightarrow> obj" where
  "opt_entry k v = (case v of None \<Rightarrow> [] | Some x \<Rightarrow> [(k, x)])"

definition constraints_json :: "constraints_update \<Rightarrow> json" where
  "constraints_json c =
     JObj (opt_entry ''dimensional'' (map_option JObj (c_dimensional c))
         @ opt_entry ''material'' (map_option JObj (c_material c))
         @ opt_entry ''structural'' (map_option JObj (c_structural c))
         @ opt_entry ''aesthetic'' (map_option JObj (c_aesthetic c))
         @ opt_entry ''budget'' (map_option JObj (c_budget c)))"

definition validation_json :: "validation_update \<Rightarrow> json" where
  "validation_json v = JObj [(''agent'', JStr (val_agent v)), (''result'', val_result v)]"

definition decision_json :: "agent_decision \<Rightarrow> json" where
  "decision_json d =
     JObj ([(''agent_name'', JStr (agent_name d)),
            (''decision_type'', JStr (decision_type d)),
            (''value'', decision_value d),
            (''reasoning'', JStr (reasoning d)),
            (''confidence'', JNum (confidence d)),
            (''timestamp'', JNum (of_nat (decision_timestamp d)))]
         @ opt_entry ''alternatives_considered'' (map_option JArr (alternatives_considered d)))"

definition updates_entries :: "updates \<Rightarrow> obj" where
  "updates_entries u =
     opt_entry ''design'' (map_option JObj (u_design u))
   @ opt_entry ''constraints'' (map_option constraints_json (u_constraints u))
   @ opt_entry ''validation'' (map_option validation_json (u_validation u))
   @ opt_entry ''decision'' (map_option decision_json (u_decision u))"

subsection \<open>Lock check\<close>

text \<open>
  \<^verbatim>\<open>getLockedProperties\<close>: \<^verbatim>\<open>checkPath\<close> reports the path itself when it is in
  \<^verbatim>\<open>locked_properties\<close> and then descends into objects and arrays.  Neither the agent
  calling nor any expiry time is consulted.
\<close>

definition hit :: "string list \<Rightarrow> string \<Rightarrow> string list" where
  "hit lp path = (if path \<in> set lp then [path] else [])"

fun checkPath :: "string list \<Rightarrow> json \<Rightarrow> string \<Rightarrow> string list"
  and checkEntries :: "string list \<Rightarrow> (string \<times> json) list \<Rightarrow> string \<Rightarrow> string list"
  and checkItems :: "string list \<Rightarrow> json list \<Rightarrow> string \<Rightarrow> nat \<Rightarrow> string list"
where
  "checkPath lp (JObj kvs) path = hit lp path @ checkEntries lp kvs path"
| "checkPath lp (JArr xs) path = hit lp path @ checkItems lp xs path 0"
| "checkPath lp JNull path = hit lp path"
| "checkPath lp (JBool b) path = hit lp path"
| "checkPath lp (JNum r) path = hit lp path"
| "checkPath lp (JStr s) path = hit lp path"
| "checkEntries lp [] path = []"
| "checkEntries lp (kv # kvs) path =
     checkPath lp (snd kv) (path @ ''.'' @ fst kv) @ checkEntries lp kvs path"
| "checkItems lp [] path i = []"
| "checkItems lp (x # xs) path i =
     checkPath lp x (path @ ''.'' @ string_of_nat i) @ checkItems lp xs path (Suc i)"

fun checkTop :: "string list \<Rightarrow> (string \<times> json) list \<Rightarrow> string list" where
  "checkTop lp [] = []"
| "checkTop lp (kv # kvs) = checkPath lp (snd kv) (fst kv) @ checkTop lp kvs"

definition getLockedProperties :: "manager \<Rightarrow> updates \<Rightarrow> string list" where
  "getLockedProperties m u = checkTop (locked_properties (state m)) (updates_entries u)"

subsection \<open>updateState\<close>

record update_result =
  success :: bool
  newVersion :: nat
  conflicts :: "string list option"

definition version_mismatch :: string where
  "version_mismatch = ''Version mismatch - state has been updated by another agent''"

definition locked_message :: "string \<Rightarrow> string" where
  "locked_message p = ''Property '' @ p @ '' is locked''"

text \<open>The loop over \<^verbatim>\<open>Object.entries(updates.design)\<close>: one write and one change record per key.\<close>

fun apply_design :: "string \<Rightarrow> nat \<Rightarrow> obj \<Rightarrow> obj \<times> state_change list \<Rightarrow> obj \<times> state_change list" where
  "apply_design a now [] (d, cs) = (d, cs)"
| "apply_design a now (kv # kvs) (d, cs) =
     apply_design a now kvs
       (AList.update (fst kv) (snd kv) d,
        cs @ [\<lparr> agent = a, timestamp = now, previous_value = map_of d (fst kv),
                new_value = snd kv, property_path = ''design.'' @ fst kv,
                reason = ''Updated by '' @ a \<rparr>])"

text \<open>\<^verbatim>\<open>Object.assign(target, source)\<close>.\<close>

definition object_assign :: "obj \<Rightarrow> obj \<Rightarrow> obj" where
  "object_assign target source = fold (\<lambda>kv t. AList.update (fst kv) (snd kv) t) source target"

text \<open>
  \<^verbatim>\<open>createChange\<close> reads the previous value with \<^verbatim>\<open>getValueAtPath\<close> after the merge, so
  it records the merged object.
\<close>

definition createChange :: "string \<Rightarrow> nat \<Rightarrow> string \<Rightarrow> obj \<Rightarrow> obj \<Rightarrow> state_change" where
  "createChange a now path current v =
     \<lparr> agent = a, timestamp = now, previous_value = Some (JObj current), new_value = JObj v,
       property_path = path, reason = ''Updated by '' @ a \<rparr>"

definition updateConstraints ::
  "constraints_update \<Rightarrow> string \<Rightarrow> nat \<Rightarrow> design_constraints \<times> state_change list
     \<Rightarrow> design_constraints \<times> state_change list" where
  "updateConstraints upd a now ccs =
     (let step1 = (\<lambda>(c, cs). case c_dimensional upd of None \<Rightarrow> (c, cs)
            | Some v \<Rightarrow> (let t = object_assign (dimensional c) v
                in (c\<lparr>dimensional := t\<rparr>, cs @ [createChange a now ''constraints.dimensional'' t v])));
          step2 = (\<lambda>(c, cs). case c_material upd of None \<Rightarrow> (c, cs)
            | Some v \<Rightarrow> (let t = object_assign (material c) v
                in (c\<lparr>material := t\<rparr>, cs @ [createChange a now ''constraints.material'' t v])));
          step3 = (\<lambda>(c, cs). case c_structural upd of None \<Rightarrow> (c, cs)
            | Some v \<Rightarrow> (let t = object_assign (structural c) v
                in (c\<lparr>structural := t\<rparr>, cs @ [createChange a now ''constraints.structural'' t v])));
          step4 = (\<lambda>(c, cs). case c_aesthetic upd of None \<Rightarrow> (c, cs)
            | Some v \<Rightarrow> (let t = object_assign (aesthetic c) v
                in (c\<lparr>aesthetic := t\<rparr>, cs @ [createChange a now ''constraints.aesthetic'' t v])));
          step5 = (\<lambda>(c, cs). case c_budget upd of None \<Rightarrow> (c, cs)
            | Some v \<Rightarrow> (let t = object_assign (budget c) v
                in (c\<lparr>budget := t\<rparr>, cs @ [createChange a now ''constraints.budget'' t v])))
      in step5 (step4 (step3 (step2 (step1 ccs)))))"

text \<open>
  The body of the \<^verbatim>\<open>try\<close> block.  Its statements cannot throw on JSON data, so the
  \<^verbatim>\<open>catch\<close> branch with \<^verbatim>\<open>rollbackChanges\<close> is not reached.
\<close>

definition applyUpdates :: "nat \<Rightarrow> string \<Rightarrow> updates \<Rightarrow> manager \<Rightarrow> manager" where
  "applyUpdates now a u m =
     (let st = state m;
          (d, cs1) = (case u_design u of None \<Rightarrow> (design st, [])
                      | Some kvs \<Rightarrow> apply_design a now kvs (design st, []));
          (c, cs2) = (case u_constraints u of None \<Rightarrow> (constraints st, cs1)
                      | Some cu \<Rightarrow> updateConstraints cu a now (constraints st, cs1));
          (vr, cs3) = (case u_validation u of None \<Rightarrow> (validation_results st, cs2)
                      | Some v \<Rightarrow>
                          (AList.update (val_agent v) (val_result v) (validation_results st),
                           cs2 @ [\<lparr> agent = a, timestamp = now, previous_value = Some JNull,
                                    new_value = val_result v,
                                    property_path = ''validation.'' @ val_agent v,
                                    reason = ''Validation completed'' \<rparr>]));
          (ad, changes) = (case u_decision u of None \<Rightarrow> (agent_decisions st, cs3)
                      | Some dc \<Rightarrow>
                          (let key = a @ ''_'' @ decision_type dc
                           in (AList.update key (decision_json dc) (agent_decisions st),
                               cs3 @ [\<lparr> agent = a, timestamp = now, previous_value = Some JNull,
                                        new_value = decision_json dc,
                                        property_path = ''decisions.'' @ key,
                                        reason = reasoning dc \<rparr>])));
          h = history st @ changes;
          st' = st\<lparr> design := d, constraints := c, validation_results := vr,
                    agent_decisions := ad, version := version st + 1,
                    history := (if length h > MAX_HISTORY_SIZE then slice_last MAX_HISTORY_SIZE h else h) \<rparr>;
          m1 = m\<lparr>state := st'\<rparr>;
          m2 = (if version st' mod 10 = 0 then saveSnapshot now m1 else m1)
      in m2\<lparr>pendingChanges := pendingChanges m2 @ changes\<rparr>)"

definition updateState ::
  "nat \<Rightarrow> string \<Rightarrow> updates \<Rightarrow> nat option \<Rightarrow> manager \<Rightarrow> manager \<times> update_result" where
  "updateState now agentName u expectedVersion m =
     (if expectedVersion \<noteq> None \<and> expectedVersion \<noteq> Some (version (state m)) then
        (m, \<lparr> success = False, newVersion = version (state m),
               conflicts = Some [version_mismatch] \<rparr>)
      else
        let lockedProperties = getLockedProperties m u in
        if length lockedProperties > 0 then
          (m, \<lparr> success = False, newVersion = version (state m),
                 conflicts = Some (map locked_message lockedProperties) \<rparr>)
        else
          let m' = applyUpdates now agentName u m
          in (m', \<lparr> success = True, newVersion = version (state m'), conflicts = None \<rparr>))"

subsection \<open>Locks\<close>

record lock_result =
  granted :: bool
  lockId :: "string option"
  lock_conflicts :: "string list option"

definition set_add :: "'a \<Rightarrow> 'a list \<Rightarrow> 'a list" where
  "set_add x xs = (if x \<in> set xs then xs else xs @ [x])"

definition lock_conflicts_for :: "nat \<Rightarrow> string \<Rightarrow> (string \<times> lock) list \<Rightarrow> string \<Rightarrow> string list" where
  "lock_conflicts_for now agentName ls prop =
     concat (map (\<lambda>il. if prop \<in> set (properties (snd il)) \<and> lock_agent (snd il) \<noteq> agentName
                           \<and> now < expiresAt (snd il)
                        then [prop @ '' locked by '' @ lock_agent (snd il)] else []) ls)"

text \<open>
  \<^verbatim>\<open>acquireLock\<close>.  The generated lock id (time stamp and random suffix) is an argument.
  The \<^verbatim>\<open>setTimeout\<close> that releases the lock after \<open>LOCK_TIMEOUT\<close> is recorded in \<open>timers\<close>.
\<close>

definition acquireLock ::
  "nat \<Rightarrow> string \<Rightarrow> string \<Rightarrow> string list \<Rightarrow> manager \<Rightarrow> manager \<times> lock_result" where
  "acquireLock now newId agentName props m =
     (let cfl = concat (map (lock_conflicts_for now agentName (locks m)) props) in
      if length cfl > 0 then
        (m, \<lparr> granted = False, lockId = None, lock_conflicts = Some cfl \<rparr>)
      else
        let l = \<lparr> lock_id = newId, lock_agent = agentName, properties = fold set_add props [],
                   acquiredAt = now, expiresAt = now + LOCK_TIMEOUT \<rparr>;
            st = state m
        in (m\<lparr> locks := AList.update newId l (locks m),
                state := st\<lparr>locked_properties := fold set_add props (locked_properties st)\<rparr>,
                timers := timers m @ [(now + LOCK_TIMEOUT, newId)] \<rparr>,
            \<lparr> granted = True, lockId = Some newId, lock_conflicts = None \<rparr>))"

definition releaseLock :: "string \<Rightarrow> manager \<Rightarrow> manager \<times> bool" where
  "releaseLock lid m =
     (case map_of (locks m) lid of
        None \<Rightarrow> (m, False)
      | Some l \<Rightarrow>
          (let st = state m
           in (m\<lparr> state := st\<lparr>locked_properties := fold removeAll (properties l) (locked_properties st)\<rparr>,
                   locks := AList.delete lid (locks m) \<rparr>, True)))"

text \<open>
  The timer queue: \<open>runTimers now m\<close> is the store after every auto-release callback that
  is due at \<open>now\<close> has run, in the order the timers were set, and has left the queue.  When
  the event loop gets to a due callback is not fixed by the store: an operation that
  arrives at a time at or past a lock's expiry may find the store with the callback
  still pending (\<open>m\<close>) or with the callback run (\<open>runTimers now m\<close>).
\<close>

definition fire_timers :: "(nat \<times> string) list \<Rightarrow> manager \<Rightarrow> manager" where
  "fire_timers ts m = fold (\<lambda>t m'. fst (releaseLock (snd t) m')) ts m"

definition runTimers :: "nat \<Rightarrow> manager \<Rightarrow> manager" where
  "runTimers now m =
     (fire_timers (filter (\<lambda>t. fst t \<le> now) (timers m)) m)
       \<lparr>timers := filter (\<lambda>t. \<not> fst t \<le> now) (timers m)\<rparr>"

subsection \<open>Rollback and read\<close>

definition rollbackToVersion :: "nat \<Rightarrow> manager \<Rightarrow> manager \<times> bool" where
  "rollbackToVersion v m =
     (case find (\<lambda>s. snap_version s = v) (snapshots m) of
        None \<Rightarrow> (m, False)
      | Some snapshot \<Rightarrow>
          (let m1 = m\<lparr>locks := []\<rparr>;
               m2 = m1\<lparr>state := (state m1)\<lparr>locked_properties := []\<rparr>\<rparr>;
               m3 = m2\<lparr>state := deepClone (snap_state snapshot)\<rparr>
           in (m3, True)))"

definition getState :: "manager \<Rightarrow> shared_state" where
  "getState m = deepClone (state m)"

text \<open>The debounced batch notification hands the pending changes to the subscribers and empties the list.\<close>

definition processBatchUpdate :: "manager \<Rightarrow> manager" where
  "processBatchUpdate m = (if pendingChanges m = [] then m else m\<lparr>pendingChanges := []\<rparr>)"

subsection \<open>Sequences of updateState calls\<close>

record call =
  c_now :: nat
  c_agent :: string
  c_updates :: updates
  c_expected :: "nat option"

fun run_updates :: "call list \<Rightarrow> manager \<Rightarrow> manager \<times> update_result list" where
  "run_updates [] m = (m, [])"
| "run_updates (c # cs) m =
     (let (m1, r) = updateState (c_now c) (c_agent c) (c_updates c) (c_expected c) m;
          (m2, rs) = run_updates cs m1
      in (m2, r # rs))"

subsection \<open>A scenario: worker A locks the width\<close>

text \<open>
  A fresh store at time 0; worker A acquires a lock on \<^verbatim>\<open>design.width\<close> at time 100 (the
  lock expires at 5100); worker B then writes the height ten times, which brings the
  version to 10 and captures a snapshot; finally the store is rolled back to version 10.
\<close>

definition upd_width :: updates where
  "upd_width = \<lparr> u_design = Some [(''width'', JNum 48)], u_constraints = None,
                   u_validation = None, u_decision = None \<rparr>"

definition upd_height :: updates where
  "upd_height = \<lparr> u_design = Some [(''height'', JNum 72)], u_constraints = None,
                    u_validation = None, u_decision = None \<rparr>"

definition call_height :: call where
  "call_height = \<lparr> c_now = 200, c_agent = ''B'', c_updates = upd_height, c_expected = None \<rparr>"

definition lock_1 :: lock where
  "lock_1 = \<lparr> lock_id = ''lock_1'', lock_agent = ''A'', properties = [''design.width''],
               acquiredAt = 100, expiresAt = 5100 \<rparr>"

definition m_locked :: manager where
  "m_locked = fst (acquireLock 100 ''lock_1'' ''A'' [''design.width''] (new_manager 0))"

definition m_nine :: manager where
  "m_nine = fst (run_updates (replicate 9 call_height) m_locked)"

definition m_ten :: manager where
  "m_ten = fst (run_updates (replicate 10 call_height) m_locked)"

definition m_rolled :: manager where
  "m_rolled = fst (rollbackToVersion 10 m_ten)"

section \<open>The message bus (AgentCommunicationBus)\<close>

text \<open>
  The bus of \<^verbatim>\<open>services/communication/AgentCommunicationBus.ts\<close>.  A worker's own code
  (\<^verbatim>\<open>process\<close>, \<^verbatim>\<open>handleMessage\<close>) is outside the bus: what it returns or throws is an
  argument of the operations below.  Message ids are random labels that nothing reads,
  and the performance metrics are written but never consulted; both are left out.
  The cache key, a string built from sender, target and the query's JSON text, is
  modelled by that triple.
\<close>

record bus_agent =
  a_name :: string
  has_handleMessage :: bool
  interestedEvents :: "string list option"

record agent_message =
  from_agent :: string
  to_agent :: string
  msg_type :: string
  payload :: json
  msg_timestamp :: nat
  requires_response :: bool
  timeout_ms :: "nat option"

record queue_item =
  message :: agent_message
  priority :: int
  q_timestamp :: nat
  retries :: nat
  deferred :: bool

record query_cache =
  qc_result :: json
  qc_timestamp :: nat
  qc_ttl :: nat

type_synonym cache_key = "string \<times> string \<times> json"

record bus =
  bus_agents :: "(string \<times> bus_agent) list"
  messageQueue :: "queue_item list"
  queryCache :: "(cache_key \<times> query_cache) list"
  isProcessing :: bool

definition MAX_RETRIES :: nat where "MAX_RETRIES = 3"
definition DEFAULT_TIMEOUT :: nat where "DEFAULT_TIMEOUT = 5000"
definition CACHE_TTL :: nat where "CACHE_TTL = 300000"
definition MAX_QUEUE_SIZE :: nat where "MAX_QUEUE_SIZE = 1000"

definition new_bus :: bus where
  "new_bus = \<lparr> bus_agents = [], messageQueue = [], queryCache = [], isProcessing = False \<rparr>"

definition registerAgent :: "bus_agent \<Rightarrow> bus \<Rightarrow> string + bus" where
  "registerAgent ag b =
     (if map_of (bus_agents b) (a_name ag) \<noteq> None
      then Inl (''Agent '' @ a_name ag @ '' is already registered'')
      else Inr (b\<lparr>bus_agents := AList.update (a_name ag) ag (bus_agents b)\<rparr>))"

definition getCacheKey :: "string \<Rightarrow> string \<Rightarrow> json \<Rightarrow> cache_key" where
  "getCacheKey fromAgent toAgent q = (fromAgent, toAgent, q)"

definition getFromCache :: "nat \<Rightarrow> cache_key \<Rightarrow> bus \<Rightarrow> bus \<times> json option" where
  "getFromCache now key b =
     (case map_of (queryCache b) key of
        None \<Rightarrow> (b, None)
      | Some cached \<Rightarrow>
          if now - qc_timestamp cached > qc_ttl cached
          then (b\<lparr>queryCache := AList.delete key (queryCache b)\<rparr>, None)
          else (b, Some (qc_result cached)))"

definition addToCache :: "nat \<Rightarrow> cache_key \<Rightarrow> json \<Rightarrow> bus \<Rightarrow> bus" where
  "addToCache now key result b =
     b\<lparr>queryCache := AList.update key
         \<lparr> qc_result = result, qc_timestamp = now, qc_ttl = CACHE_TTL \<rparr> (queryCache b)\<rparr>"

definition queue_full :: string where
  "queue_full = ''Message queue is full''"

definition addToQueue :: "nat \<Rightarrow> agent_message \<Rightarrow> int \<Rightarrow> bool \<Rightarrow> bus \<Rightarrow> string + bus" where
  "addToQueue now msg prio dfd b =
     (if length (messageQueue b) \<ge> MAX_QUEUE_SIZE then Inl queue_full
      else Inr (b\<lparr>messageQueue := messageQueue b @
                  [\<lparr> message = msg, priority = prio, q_timestamp = now, retries = 0,
                     deferred = dfd \<rparr>]\<rparr>))"

text \<open>\<^verbatim>\<open>options.timeout || DEFAULT\<close> and \<^verbatim>\<open>options.priority || 1\<close>: a missing or zero option takes the default.\<close>

definition nat_or :: "nat option \<Rightarrow> nat \<Rightarrow> nat" where
  "nat_or x d = (case x of None \<Rightarrow> d | Some n \<Rightarrow> if n = 0 then d else n)"

definition int_or :: "int option \<Rightarrow> int \<Rightarrow> int" where
  "int_or x d = (case x of None \<Rightarrow> d | Some n \<Rightarrow> if n = 0 then d else n)"

text \<open>
  \<^verbatim>\<open>query\<close> up to its first \<^verbatim>\<open>await\<close>: the cache lookup, and on a miss the message and
  \<^verbatim>\<open>addToQueue\<close>.  These statements stand before the \<^verbatim>\<open>try\<close>, so an error of
  \<^verbatim>\<open>addToQueue\<close> rejects the promise that \<^verbatim>\<open>query\<close> returns.  A cached \<^verbatim>\<open>null\<close> counts as
  a miss (\<^verbatim>\<open>cached !== null\<close>).
\<close>

datatype query_start = Cached json | Rejected string | Enqueued

definition query_enqueue ::
  "nat \<Rightarrow> string \<Rightarrow> string \<Rightarrow> json \<Rightarrow> nat option \<Rightarrow> int option \<Rightarrow> bus \<Rightarrow> bus \<times> query_start" where
  "query_enqueue now fromAgent toAgent q timeout prio b =
     (let msg = \<lparr> from_agent = fromAgent, to_agent = toAgent, msg_type = ''query'',
                  payload = q, msg_timestamp = now, requires_response = True,
                  timeout_ms = Some (nat_or timeout DEFAULT_TIMEOUT) \<rparr>
      in case addToQueue now msg (int_or prio 1) True b of
           Inl e \<Rightarrow> (b, Rejected e)
         | Inr b' \<Rightarrow> (b', Enqueued))"

definition query_begin ::
  "nat \<Rightarrow> string \<Rightarrow> string \<Rightarrow> json \<Rightarrow> nat option \<Rightarrow> int option \<Rightarrow> bus \<Rightarrow> bus \<times> query_start" where
  "query_begin now fromAgent toAgent q timeout prio b =
     (let cacheKey = getCacheKey fromAgent toAgent q;
          (b1, cached) = getFromCache now cacheKey b
      in case cached of
           None \<Rightarrow> query_enqueue now fromAgent toAgent q timeout prio b1
         | Some r \<Rightarrow>
             if r = JNull then query_enqueue now fromAgent toAgent q timeout prio b1
             else (b1, Cached r))"

definition handleQueryError :: "string \<Rightarrow> string \<Rightarrow> json \<Rightarrow> string \<Rightarrow> json" where
  "handleQueryError fromAgent toAgent q err =
     (if toAgent = ''material_agent'' then
        JObj [(''material'', JStr ''pine''), (''reason'', JStr ''fallback_default''),
              (''properties'', JObj [(''cost'', JStr ''low''), (''workability'', JStr ''easy'')])]
      else if toAgent = ''dimension_agent'' then
        JObj [(''dimensions'', JObj [(''width'', JNum 24), (''height'', JNum 30), (''depth'', JNum 18)]),
              (''reason'', JStr ''fallback_standard'')]
      else
        JObj [(''success'', JBool False), (''error'', JStr err), (''fallback'', JBool True)])"

text \<open>
  The rest of \<^verbatim>\<open>query\<close>, after the race between the deferred promise and the time-out
  has been decided: \<open>Inr\<close> the target's result, \<open>Inl\<close> the error (processing failed after
  the retries, or \<^verbatim>\<open>Query timeout\<close>).  Either way \<^verbatim>\<open>query\<close> resolves.
\<close>

definition query_value :: "string \<Rightarrow> string \<Rightarrow> json \<Rightarrow> string + json \<Rightarrow> json" where
  "query_value fromAgent toAgent q race =
     (case race of Inr result \<Rightarrow> result | Inl err \<Rightarrow> handleQueryError fromAgent toAgent q err)"

definition query_end :: "nat \<Rightarrow> string \<Rightarrow> string \<Rightarrow> json \<Rightarrow> string + json \<Rightarrow> bus \<Rightarrow> bus \<times> json" where
  "query_end now fromAgent toAgent q race b =
     (case race of
        Inr result \<Rightarrow> (addToCache now (getCacheKey fromAgent toAgent q) result b, result)
      | Inl err \<Rightarrow> (b, handleQueryError fromAgent toAgent q err))"

subsection \<open>The queue processor\<close>

text \<open>
  One tick of \<^verbatim>\<open>startQueueProcessor\<close> sorts the queue (higher priority first, older
  first among equals; the sort is stable) and takes up to ten items off it.  Each item
  is then handed to \<^verbatim>\<open>processMessage\<close>; between two items the processor awaits, so other
  callers may enqueue in the meantime.  A failed item with retries left is pushed back
  onto the queue directly, not through \<^verbatim>\<open>addToQueue\<close>.
\<close>

fun insert_item :: "queue_item \<Rightarrow> queue_item list \<Rightarrow> queue_item list" where
  "insert_item x [] = [x]"
| "insert_item x (y # ys) =
     (if priority x > priority y \<or> (priority x = priority y \<and> q_timestamp x \<le> q_timestamp y)
      then x # y # ys else y # insert_item x ys)"

definition sort_queue :: "queue_item list \<Rightarrow> queue_item list" where
  "sort_queue q = foldr insert_item q []"

definition tick_begin :: "bus \<Rightarrow> bus \<times> queue_item list" where
  "tick_begin b =
     (if isProcessing b \<or> messageQueue b = [] then (b, [])
      else let sorted = sort_queue (messageQueue b)
           in (b\<lparr>messageQueue := drop 10 sorted, isProcessing := True\<rparr>, take 10 sorted))"

datatype settlement = Resolved json | Failed string | Requeued

definition processMessage :: "queue_item \<Rightarrow> string + json \<Rightarrow> bus \<Rightarrow> bus \<times> settlement" where
  "processMessage item handler b =
     (let outcome =
            (case map_of (bus_agents b) (to_agent (message item)) of
               None \<Rightarrow> Inl (''Agent '' @ to_agent (message item) @ '' not found'')
             | Some targetAgent \<Rightarrow> handler)
      in case outcome of
           Inr result \<Rightarrow> (b, Resolved result)
         | Inl err \<Rightarrow>
             if retries item < MAX_RETRIES
             then (b\<lparr>messageQueue := messageQueue b @ [item\<lparr>retries := retries item + 1\<rparr>]\<rparr>, Requeued)
             else (b, Failed err))"

definition tick_end :: "bus \<Rightarrow> bus" where
  "tick_end b = b\<lparr>isProcessing := False\<rparr>"

subsection \<open>requestValidation\<close>

definition validation_failure :: "string \<Rightarrow> string \<Rightarrow> json" where
  "validation_failure agentName err =
     JObj [(''valid'', JBool False), (''score'', JNum 0),
           (''issues'', JArr [JObj [(''type'', JStr ''validation_error''), (''severity'', JStr ''high''),
                                    (''message'', JStr (''Validation failed: '' @ err)),
                                    (''affected_component'', JStr agentName),
                                    (''fix_available'', JBool False)]]),
           (''warnings'', JArr []), (''suggestions'', JArr [])]"

definition validate_query :: "json \<Rightarrow> json" where
  "validate_query d = JObj [(''type'', JStr ''validate''), (''design'', d)]"

text \<open>
  The callbacks of \<^verbatim>\<open>validators.map\<close> run one after the other up to their first \<^verbatim>\<open>await\<close>:
  an unregistered name returns \<^verbatim>\<open>null\<close> at once, a registered one starts its query.
  What the callback of the \<open>i\<close>-th validator returns in the end is decided by \<open>race i\<close>,
  the outcome of the query that was enqueued for it; a rejected query is caught and
  replaced by the synthesized failure.  The bus returned is the one after all the
  queries have been started.
\<close>

fun run_callbacks ::
  "nat \<Rightarrow> json \<Rightarrow> (nat \<Rightarrow> string + json) \<Rightarrow> nat \<Rightarrow> string list \<Rightarrow> bus
     \<Rightarrow> bus \<times> (string \<times> json) option list" where
  "run_callbacks now d race i [] b = (b, [])"
| "run_callbacks now d race i (v # vs) b =
     (case map_of (bus_agents b) v of
        None \<Rightarrow> (let (b', rs) = run_callbacks now d race (Suc i) vs b in (b', None # rs))
      | Some ag \<Rightarrow>
          (let (b1, st) = query_begin now ''orchestrator'' v (validate_query d) None (Some 2) b;
               r = (case st of
                      Cached c \<Rightarrow> c
                    | Rejected err \<Rightarrow> validation_failure v err
                    | Enqueued \<Rightarrow> query_value ''orchestrator'' v (validate_query d) (race i));
               (b2, rs) = run_callbacks now d race (Suc i) vs b1
           in (b2, Some (v, r) # rs)))"

fun compile_results :: "(string \<times> json) option list \<Rightarrow> (string \<times> json) list \<Rightarrow> (string \<times> json) list" where
  "compile_results [] results = results"
| "compile_results (None # rs) results = compile_results rs results"
| "compile_results (Some ar # rs) results = compile_results rs (AList.update (fst ar) (snd ar) results)"

definition requestValidation ::
  "nat \<Rightarrow> json \<Rightarrow> string list \<Rightarrow> (nat \<Rightarrow> string + json) \<Rightarrow> bus \<Rightarrow> bus \<times> (string \<times> json) list" where
  "requestValidation now d validators race b =
     (let (b', validationResults) = run_callbacks now d race 0 validators b
      in (b', compile_results validationResults []))"

definition default_validators :: "string list" where
  "default_validators = [''dimension_agent'', ''material_agent'', ''joinery_agent'', ''validation_agent'']"

subsection \<open>A full queue\<close>

text \<open>Several callers enqueue one after the other, each through \<open>addToQueue\<close>.\<close>

fun enqueue_many :: "nat \<Rightarrow> nat \<Rightarrow> agent_message \<Rightarrow> bus \<Rightarrow> string + bus" where
  "enqueue_many 0 now msg b = Inr b"
| "enqueue_many (Suc n) now msg b =
     (case addToQueue now msg 1 True b of Inl e \<Rightarrow> Inl e | Inr b' \<Rightarrow> enqueue_many n now msg b')"

definition full_message :: agent_message where
  "full_message = \<lparr> from_agent = ''orchestrator'', to_agent = ''joinery_agent'',
       msg_type = ''query'', payload = JStr ''q'', msg_timestamp = 0, requires_response = True,
       timeout_ms = Some 5000 \<rparr>"

definition full_item :: queue_item where
  "full_item = \<lparr> message = full_message, priority = 1, q_timestamp = 0, retries = 0,
                  deferred = True \<rparr>"

definition cached_bus :: bus where
  "cached_bus = \<lparr> bus_agents = [], messageQueue = [],
       queryCache = [((''orchestrator'', ''material_agent'', JStr ''q''),
                      \<lparr> qc_result = JStr ''oak'', qc_timestamp = 0, qc_ttl = CACHE_TTL \<rparr>)],
       isProcessing = False \<rparr>"

definition full_bus :: bus where
  "full_bus = cached_bus\<lparr>messageQueue := replicate 1000 full_item\<rparr>"

definition worker :: "string \<Rightarrow> bus_agent" where
  "worker n = \<lparr> a_name = n, has_handleMessage = True, interestedEvents = None \<rparr>"

definition team_bus :: bus where
  "team_bus = new_bus\<lparr>bus_agents := map (\<lambda>n. (n, worker n)) default_validators\<rparr>"

definition busy_bus :: bus where
  "busy_bus = full_bus\<lparr>bus_agents := [(''validation_agent'', worker ''validation_agent'')]\<rparr>"

subsection \<open>resolveConflict\<close>




text \<open>
  The vote table is keyed by the JSON text of a proposal; a JSON value stands for its
  text here, and \<open>None\<close> for the key \<^verbatim>\<open>undefined\<close> that \<^verbatim>\<open>JSON.stringify\<close> yields when a
  vote names no proposer.  \<open>ask proposer voter\<close> is the outcome of the query sent to
  \<open>voter\<close> in the round of \<open>proposer\<close>: \<open>Inr\<close> the answer, \<open>Inl\<close> when the query rejects.
\<close>

type_synonym votes = "(json option \<times> nat) list"






text \<open>The winner loop; \<^verbatim>\<open>JSON.parse(undefined)\<close> throws a \<^verbatim>\<open>SyntaxError\<close>.\<close>

fun find_winner :: "votes \<Rightarrow> nat \<Rightarrow> json \<Rightarrow> string + json" where
  "find_winner [] maxVotes winner = Inr winner"
| "find_winner (kv # vs) maxVotes winner =
     (if snd kv > maxVotes
      then (case fst kv of None \<Rightarrow> Inl ''SyntaxError'' | Some p \<Rightarrow> find_winner vs (snd kv) p)
      else find_winner vs maxVotes winner)"





subsection \<open>A three-way conflict\<close>





section \<open>The coordinator (CohesionCoordinator)\<close>

text \<open>
  The rules of \<^verbatim>\<open>cohesionCoordinator.ts\<close> read six attributes of the design; the others are
  carried along in \<open>other_fields\<close>.  An absent attribute is \<open>None\<close>.  The message texts of
  the rules (they format numbers) are not modelled; a failed rule is reported by its name.
\<close>

record furniture =
  furniture_type :: "string option"
  dimensions :: "(string \<times> rat) list option"
  boardThickness :: "rat option"
  materials :: "string list option"
  joinery :: "string list option"
  features :: "string list option"
  other_fields :: obj

text \<open>\<^verbatim>\<open>x || d\<close> on strings and numbers, \<^verbatim>\<open>xs?.[0]\<close>, and \<^verbatim>\<open>design.dimensions?.k\<close>.\<close>

definition str_or :: "string option \<Rightarrow> string \<Rightarrow> string" where
  "str_or x d = (case x of None \<Rightarrow> d | Some s \<Rightarrow> if s = [] then d else s)"

definition num_or :: "rat option \<Rightarrow> rat \<Rightarrow> rat" where
  "num_or x d = (case x of None \<Rightarrow> d | Some r \<Rightarrow> if r = 0 then d else r)"

definition first_of :: "'a list option \<Rightarrow> 'a option" where
  "first_of xs = (case xs of None \<Rightarrow> None | Some [] \<Rightarrow> None | Some (x # rest) \<Rightarrow> Some x)"

definition dimension_of :: "furniture \<Rightarrow> string \<Rightarrow> rat option" where
  "dimension_of d k = (case dimensions d of None \<Rightarrow> None | Some kvs \<Rightarrow> map_of kvs k)"

subsection \<open>Tables\<close>

definition spanTable :: "(string \<times> (rat \<times> rat) list) list" where
  "spanTable =
     [(''pine'', [(3/4, 24), (3/2, 36), (2, 48)]),
      (''oak'', [(3/4, 30), (3/2, 42), (2, 54)]),
      (''plywood'', [(3/4, 22), (3/2, 32), (2, 42)])]"

definition calculateMaxSpan :: "string \<Rightarrow> rat \<Rightarrow> rat" where
  "calculateMaxSpan mat thickness =
     (let materialData = (case map_of spanTable mat of
                            None \<Rightarrow> [(3/4, 24), (3/2, 36), (2, 48)]
                          | Some row \<Rightarrow> row)
      in case map_of materialData thickness of None \<Rightarrow> 24 | Some maxSpan \<Rightarrow> maxSpan)"

definition strengthTable :: "(string \<times> (string \<times> rat) list) list" where
  "strengthTable =
     [(''mortise_tenon'', [(''pine'', 800), (''oak'', 1200)]),
      (''dovetail'', [(''pine'', 700), (''oak'', 1000)]),
      (''dowel'', [(''pine'', 500), (''oak'', 700)]),
      (''pocket_hole'', [(''pine'', 400), (''oak'', 600)]),
      (''screw'', [(''pine'', 300), (''oak'', 400)])]"

definition calculateJointStrength :: "string \<Rightarrow> string \<Rightarrow> rat" where
  "calculateJointStrength joint mat =
     (case map_of strengthTable joint of
        None \<Rightarrow> 300
      | Some row \<Rightarrow> (case map_of row mat of None \<Rightarrow> 300 | Some v \<Rightarrow> v))"

definition typeLoads :: "(string \<times> rat) list" where
  "typeLoads = [(''bookshelf'', 150), (''table'', 100), (''chair'', 250), (''cabinet'', 200),
                (''nightstand'', 50)]"

definition estimateLoad :: "furniture \<Rightarrow> rat" where
  "estimateLoad d = (case map_of typeLoads (str_or (furniture_type d) []) of None \<Rightarrow> 100 | Some v \<Rightarrow> v)"

definition jointHierarchy :: "string list" where
  "jointHierarchy = [''screw'', ''pocket_hole'', ''dowel'', ''dovetail'', ''mortise_tenon'']"

fun index_of :: "string \<Rightarrow> string list \<Rightarrow> int" where
  "index_of x [] = - 1"
| "index_of x (y # ys) = (if x = y then 0 else (let i = index_of x ys in if i < 0 then - 1 else i + 1))"

definition getStrongerJoint :: "string option \<Rightarrow> string" where
  "getStrongerJoint currentJoint =
     (let currentIndex = index_of (str_or currentJoint ''screw'') jointHierarchy
      in jointHierarchy ! nat (min (currentIndex + 1) (int (length jointHierarchy) - 1)))"

definition matrix :: "(string \<times> string list) list" where
  "matrix =
     [(''pine'', [''screw'', ''pocket_hole'', ''dowel'', ''mortise_tenon'']),
      (''oak'', [''dowel'', ''dovetail'', ''mortise_tenon'']),
      (''plywood'', [''screw'', ''pocket_hole'', ''biscuit'']),
      (''mdf'', [''screw'', ''pocket_hole''])]"

definition isCompatible :: "string \<Rightarrow> string \<Rightarrow> bool" where
  "isCompatible mat joint = (case map_of matrix mat of None \<Rightarrow> False | Some js \<Rightarrow> joint \<in> set js)"

definition getBestJoint :: "string \<Rightarrow> string" where
  "getBestJoint mat =
     (case map_of matrix mat of
        None \<Rightarrow> ''screw''
      | Some js \<Rightarrow> (if js = [] then ''screw'' else str_or (Some (last js)) ''screw''))"

subsection \<open>Rules\<close>

record rule_result =
  rr_valid :: bool
  rr_fix :: furniture

definition shelf_applies :: "furniture \<Rightarrow> bool" where
  "shelf_applies d = (str_or (furniture_type d) [] \<in> set [''shelf'', ''bookshelf''])"

definition shelf_validate :: "furniture \<Rightarrow> rule_result" where
  "shelf_validate d =
     (let shelfSpan = num_or (dimension_of d ''width'') 0;
          thickness = num_or (boardThickness d) (3/4);
          mat = str_or (first_of (materials d)) ''pine'';
          maxSpan = calculateMaxSpan mat thickness
      in \<lparr> rr_valid = (shelfSpan \<le> maxSpan),
           rr_fix = d\<lparr>dimensions := Some (AList.update ''width'' maxSpan
                         (case dimensions d of None \<Rightarrow> [] | Some kvs \<Rightarrow> kvs))\<rparr> \<rparr>)"

definition joint_validate :: "furniture \<Rightarrow> rule_result" where
  "joint_validate d =
     (let estimatedLoad = estimateLoad d;
          jointStrength = calculateJointStrength (str_or (first_of (joinery d)) ''screw'')
                            (str_or (first_of (materials d)) ''pine'');
          safetyFactor = jointStrength / estimatedLoad
      in \<lparr> rr_valid = (safetyFactor \<ge> 2),
           rr_fix = d\<lparr>joinery := Some [getStrongerJoint (first_of (joinery d))]\<rparr> \<rparr>)"

definition stability_applies :: "furniture \<Rightarrow> bool" where
  "stability_applies d = (num_or (dimension_of d ''height'') 0 > 48)"

definition stability_validate :: "furniture \<Rightarrow> rule_result" where
  "stability_validate d =
     (let height = num_or (dimension_of d ''height'') 0;
          base = min (num_or (dimension_of d ''width'') 1) (num_or (dimension_of d ''depth'') 1);
          ratio = height / base
      in \<lparr> rr_valid = (ratio < 4),
           rr_fix = d\<lparr>features := Some ((case features d of None \<Rightarrow> [] | Some fs \<Rightarrow> fs)
                                        @ [''anti-tip hardware''])\<rparr> \<rparr>)"

record validation_rule =
  rule_name :: string
  applies :: "furniture \<Rightarrow> bool"
  validate :: "furniture \<Rightarrow> rule_result"

definition validationRules :: "validation_rule list" where
  "validationRules =
     [\<lparr> rule_name = ''shelf_deflection'', applies = shelf_applies, validate = shelf_validate \<rparr>,
      \<lparr> rule_name = ''joint_strength'', applies = (\<lambda>d. True), validate = joint_validate \<rparr>,
      \<lparr> rule_name = ''stability'', applies = stability_applies, validate = stability_validate \<rparr>]"

subsection \<open>Conflicts and validation\<close>

record design_conflict =
  dc_type :: string
  dc_severity :: string
  dc_fix :: furniture

definition rule_conflicts :: "furniture \<Rightarrow> validation_rule \<Rightarrow> design_conflict list" where
  "rule_conflicts d r =
     (if applies r d \<and> \<not> rr_valid (validate r d)
      then [\<lparr> dc_type = rule_name r, dc_severity = ''high'', dc_fix = rr_fix (validate r d) \<rparr>]
      else [])"

definition compatibility_conflicts :: "furniture \<Rightarrow> design_conflict list" where
  "compatibility_conflicts d =
     (case (first_of (materials d), first_of (joinery d)) of
        (Some m, Some j) \<Rightarrow>
          if \<not> isCompatible m j
          then [\<lparr> dc_type = ''material_joinery_mismatch'', dc_severity = ''medium'',
                   dc_fix = d\<lparr>joinery := Some [getBestJoint m]\<rparr> \<rparr>]
          else []
      | _ \<Rightarrow> [])"

definition detectConflicts :: "furniture \<Rightarrow> design_conflict list" where
  "detectConflicts d = concat (map (rule_conflicts d) validationRules) @ compatibility_conflicts d"

text \<open>
  \<^verbatim>\<open>resolveConflicts\<close> sorts the conflicts and then takes the result of each fix in turn;
  every fix was built from the design in which the conflict was detected.  The order in
  which the sort leaves several high-severity conflicts is the engine's, so the sorted
  list is the argument here.
\<close>

definition resolveConflicts :: "furniture \<Rightarrow> design_conflict list \<Rightarrow> furniture" where
  "resolveConflicts d ordered = fold (\<lambda>c resolvedDesign. dc_fix c) ordered d"

record design_validation =
  isValid :: bool
  issues :: "string list"
  score :: rat

definition validateCompleteDesign :: "furniture \<Rightarrow> design_validation" where
  "validateCompleteDesign d =
     (let failed = filter (\<lambda>r. applies r d \<and> \<not> rr_valid (validate r d)) validationRules
      in \<lparr> isValid = (failed = []), issues = map rule_name failed,
           score = (if failed = [] then 1 else 1/2) \<rparr>)"

subsection \<open>The span table of the knowledge graph\<close>

text \<open>
  \<^verbatim>\<open>FurnitureKnowledgeGraph.getMaxSpan\<close>, which the validation worker consults: the table
  of \<^verbatim>\<open>initializeSpanTables\<close> by thickness and material, with linear interpolation between
  the tabulated thicknesses.
\<close>

definition spanTables :: "(rat \<times> (string \<times> rat) list) list" where
  "spanTables =
     [(3/4, [(''pine'', 26), (''oak_red'', 30), (''maple_hard'', 32), (''plywood_birch'', 24),
             (''mdf'', 20), (''particle_board'', 16)]),
      (1, [(''pine'', 34), (''oak_red'', 40), (''maple_hard'', 42), (''plywood_birch'', 32),
           (''mdf'', 26), (''particle_board'', 22)]),
      (3/2, [(''pine'', 52), (''oak_red'', 60), (''maple_hard'', 64), (''plywood_birch'', 48),
             (''mdf'', 40), (''particle_board'', 32)]),
      (2, [(''pine'', 68), (''oak_red'', 80), (''maple_hard'', 84), (''plywood_birch'', 64),
           (''mdf'', 52), (''particle_board'', 44)])]"

fun surrounding :: "rat \<Rightarrow> rat list \<Rightarrow> (rat \<times> rat) option" where
  "surrounding t (a # b # rest) = (if a \<le> t \<and> t \<le> b then Some (a, b) else surrounding t (b # rest))"
| "surrounding t xs = None"

definition span_at :: "rat \<Rightarrow> string \<Rightarrow> rat \<Rightarrow> rat" where
  "span_at thickness mat dflt =
     (case map_of spanTables thickness of
        None \<Rightarrow> dflt
      | Some row \<Rightarrow> (case map_of row mat of None \<Rightarrow> dflt | Some v \<Rightarrow> v))"

definition getMaxSpan :: "string \<Rightarrow> rat \<Rightarrow> rat" where
  "getMaxSpan mat thickness =
     (case map_of spanTables thickness of
        Some row \<Rightarrow> (case map_of row mat of None \<Rightarrow> 24 | Some v \<Rightarrow> v)
      | None \<Rightarrow>
          (let (lower, upper) = (case surrounding thickness (map fst spanTables) of
                                   None \<Rightarrow> (3/4, 2) | Some lu \<Rightarrow> lu);
               lowerSpan = span_at lower mat 24;
               upperSpan = span_at upper mat 36;
               ratio = (thickness - lower) / (upper - lower)
           in lowerSpan + (upperSpan - lowerSpan) * ratio))"

subsection \<open>Scenario A\<close>

definition bookshelf_design :: furniture where
  "bookshelf_design =
     \<lparr> furniture_type = Some ''bookshelf'',
       dimensions = Some [(''width'', 48), (''height'', 72), (''depth'', 12)],
       boardThickness = Some (3/4),
       materials = Some [''mdf''],
       joinery = None,
       features = None,
       other_fields = [] \<rparr>"

section \<open>Properties of the state store\<close>

subsection \<open>Versions\<close>

lemma state_saveSnapshot: "state (saveSnapshot now m) = state m"
  by (simp add: saveSnapshot_def Let_def)

lemma version_applyUpdates: "version (state (applyUpdates now a u m)) = version (state m) + 1"
  by (simp add: applyUpdates_def Let_def state_saveSnapshot split: prod.splits option.splits)

lemma updateState_version:
  "version (state (fst (updateState now a u ev m))) =
     version (state m) + (if success (snd (updateState now a u ev m)) then 1 else 0)"
  by (simp add: updateState_def Let_def version_applyUpdates)






subsection \<open>Stale versions\<close>


lemma locked_message_not_mismatch: "locked_message p \<noteq> version_mismatch"
  by (simp add: locked_message_def version_mismatch_def)

lemma updateState_current_not_stale:
  "ev = None \<or> ev = Some (version (state m)) \<Longrightarrow>
     conflicts (snd (updateState now a u ev m)) \<noteq> Some [version_mismatch]"
  by (auto simp add: updateState_def Let_def locked_message_not_mismatch)





lemma updateState_current_is_none:
  "updateState now a u (Some (version (state m))) m = updateState now a u None m"
  by (simp add: updateState_def)






subsection \<open>Locks\<close>

lemma set_fold_removeAll: "set (fold removeAll xs ys) = set ys - set xs"
  by (induction xs arbitrary: ys) auto

lemma releaseLock_unknown: "map_of (locks m) lid = None \<Longrightarrow> releaseLock lid m = (m, False)"
  by (simp add: releaseLock_def)

lemma releaseLock_known: "map_of (locks m) lid = Some l \<Longrightarrow> snd (releaseLock lid m) = True"
  by (simp add: releaseLock_def Let_def)

lemma locks_after_release:
  "map_of (locks (fst (releaseLock x m))) lid = (if x = lid then None else map_of (locks m) lid)"
  by (simp add: releaseLock_def Let_def delete_conv' split: option.splits)

lemma locked_after_release:
  "set (locked_properties (state (fst (releaseLock x m)))) =
     (case map_of (locks m) x of None \<Rightarrow> set (locked_properties (state m))
      | Some l \<Rightarrow> set (locked_properties (state m)) - set (properties l))"
  by (simp add: releaseLock_def Let_def set_fold_removeAll split: option.splits)

lemma version_after_release: "version (state (fst (releaseLock x m))) = version (state m)"
  by (simp add: releaseLock_def Let_def split: option.splits)

lemma fire_gone: "map_of (locks m) lid = None \<Longrightarrow> map_of (locks (fire_timers ts m)) lid = None"
  by (induction ts arbitrary: m) (simp_all add: fire_timers_def locks_after_release)

lemma fire_releases: "lid \<in> snd ` set ts \<Longrightarrow> map_of (locks (fire_timers ts m)) lid = None"
proof (induction ts arbitrary: m)
  case Nil
  then show ?case by simp
next
  case (Cons t ts)
  show ?case
  proof (cases "snd t = lid")
    case True
    have "map_of (locks (fst (releaseLock (snd t) m))) lid = None"
      using True by (simp add: locks_after_release)
    then have "map_of (locks (fire_timers ts (fst (releaseLock (snd t) m)))) lid = None"
      by (rule fire_gone)
    then show ?thesis by (simp add: fire_timers_def)
  next
    case False
    then have "lid \<in> snd ` set ts" using Cons.prems by auto
    then have "map_of (locks (fire_timers ts (fst (releaseLock (snd t) m)))) lid = None"
      by (rule Cons.IH)
    then show ?thesis by (simp add: fire_timers_def)
  qed
qed

lemma fire_locked_subset:
  "set (locked_properties (state (fire_timers ts m))) \<subseteq> set (locked_properties (state m))"
proof (induction ts arbitrary: m)
  case Nil
  show ?case by (simp add: fire_timers_def)
next
  case (Cons t ts)
  have a: "set (locked_properties (state (fst (releaseLock (snd t) m)))) \<subseteq> set (locked_properties (state m))"
    by (auto simp add: locked_after_release split: option.splits)
  have "set (locked_properties (state (fire_timers ts (fst (releaseLock (snd t) m)))))
          \<subseteq> set (locked_properties (state (fst (releaseLock (snd t) m))))"
    by (rule Cons.IH)
  then show ?case using a by (auto simp add: fire_timers_def)
qed

lemma fire_disjoint_kept:
  "set (locked_properties (state m)) \<inter> S = {} \<Longrightarrow>
     set (locked_properties (state (fire_timers ts m))) \<inter> S = {}"
  using fire_locked_subset [of ts m] by blast

lemma fire_unlocks:
  "map_of (locks m) lid = Some l \<Longrightarrow> lid \<in> snd ` set ts \<Longrightarrow>
     set (locked_properties (state (fire_timers ts m))) \<inter> set (properties l) = {}"
proof (induction ts arbitrary: m)
  case Nil
  then show ?case by simp
next
  case (Cons t ts)
  let ?m1 = "fst (releaseLock (snd t) m)"
  show ?case
  proof (cases "snd t = lid")
    case True
    have "set (locked_properties (state ?m1)) \<inter> set (properties l) = {}"
      using True Cons.prems(1) by (auto simp add: locked_after_release)
    then have "set (locked_properties (state (fire_timers ts ?m1))) \<inter> set (properties l) = {}"
      by (rule fire_disjoint_kept)
    then show ?thesis by (simp add: fire_timers_def)
  next
    case False
    have a: "map_of (locks ?m1) lid = Some l"
      using False Cons.prems(1) by (simp add: locks_after_release)
    have b: "lid \<in> snd ` set ts" using False Cons.prems(2) by auto
    have "set (locked_properties (state (fire_timers ts ?m1))) \<inter> set (properties l) = {}"
      using a b by (rule Cons.IH)
    then show ?thesis by (simp add: fire_timers_def)
  qed
qed

lemma fire_version: "version (state (fire_timers ts m)) = version (state m)"
  by (induction ts arbitrary: m) (simp_all add: fire_timers_def version_after_release)

lemma fire_locks_subset: "set (locks (fire_timers ts m)) \<subseteq> set (locks m)"
proof (induction ts arbitrary: m)
  case Nil
  show ?case by (simp add: fire_timers_def)
next
  case (Cons t ts)
  have a: "set (locks (fst (releaseLock (snd t) m))) \<subseteq> set (locks m)"
    by (auto simp add: releaseLock_def Let_def AList.delete_eq split: option.splits)
  have "set (locks (fire_timers ts (fst (releaseLock (snd t) m)))) \<subseteq> set (locks (fst (releaseLock (snd t) m)))"
    by (rule Cons.IH)
  then show ?case using a by (auto simp add: fire_timers_def)
qed

lemma fire_no_locks: "locks m = [] \<Longrightarrow> fire_timers ts m = m"
  by (induction ts) (simp_all add: fire_timers_def releaseLock_def)

subsection \<open>Paths reported as locked\<close>

lemma hit_mono: "set lp' \<subseteq> set lp \<Longrightarrow> set (hit lp' p) \<subseteq> set (hit lp p)"
  by (auto simp add: hit_def)

lemma hit_in_locked: "set (hit lp p) \<subseteq> set lp"
  by (auto simp add: hit_def)

lemma checkPath_in_locked:
  "set (checkPath lp v p) \<subseteq> set lp"
  "set (checkEntries lp kvs p) \<subseteq> set lp"
  "set (checkItems lp xs p i) \<subseteq> set lp"
  by (induction lp v p and lp kvs p and lp xs p i rule: checkPath_checkEntries_checkItems.induct)
     (simp_all add: hit_in_locked)

lemma checkPath_mono:
  "set lp' \<subseteq> set lp \<Longrightarrow> set (checkPath lp' v p) \<subseteq> set (checkPath lp v p)"
  "set lp' \<subseteq> set lp \<Longrightarrow> set (checkEntries lp' kvs p) \<subseteq> set (checkEntries lp kvs p)"
  "set lp' \<subseteq> set lp \<Longrightarrow> set (checkItems lp' xs p i) \<subseteq> set (checkItems lp xs p i)"
proof (induction lp v p and lp kvs p and lp xs p i rule: checkPath_checkEntries_checkItems.induct)
  case (1 lp kvs path)
  have "set (hit lp' path) \<subseteq> set (hit lp path)"
    using "1.prems" by (rule hit_mono)
  moreover have "set (checkEntries lp' kvs path) \<subseteq> set (checkEntries lp kvs path)"
    using "1.prems" by (rule "1.IH")
  ultimately have "set (hit lp' path) \<union> set (checkEntries lp' kvs path)
      \<subseteq> set (hit lp path) \<union> set (checkEntries lp kvs path)"
    by (rule Un_mono)
  then show ?case by simp
next
  case (2 lp xs path)
  have "set (hit lp' path) \<subseteq> set (hit lp path)"
    using "2.prems" by (rule hit_mono)
  moreover have "set (checkItems lp' xs path 0) \<subseteq> set (checkItems lp xs path 0)"
    using "2.prems" by (rule "2.IH")
  ultimately have "set (hit lp' path) \<union> set (checkItems lp' xs path 0)
      \<subseteq> set (hit lp path) \<union> set (checkItems lp xs path 0)"
    by (rule Un_mono)
  then show ?case by simp
next
  case (3 lp path)
  then show ?case using hit_mono [of lp' lp path] by simp
next
  case (4 lp b path)
  then show ?case using hit_mono [of lp' lp path] by simp
next
  case (5 lp r path)
  then show ?case using hit_mono [of lp' lp path] by simp
next
  case (6 lp s path)
  then show ?case using hit_mono [of lp' lp path] by simp
next
  case (7 lp path)
  show ?case by simp
next
  case (8 lp kv kvs path)
  have "set (checkPath lp' (snd kv) (path @ ''.'' @ fst kv)) \<subseteq> set (checkPath lp (snd kv) (path @ ''.'' @ fst kv))"
    using "8.prems" by (rule "8.IH"(1))
  moreover have "set (checkEntries lp' kvs path) \<subseteq> set (checkEntries lp kvs path)"
    using "8.prems" by (rule "8.IH"(2))
  ultimately have "set (checkPath lp' (snd kv) (path @ ''.'' @ fst kv)) \<union> set (checkEntries lp' kvs path)
      \<subseteq> set (checkPath lp (snd kv) (path @ ''.'' @ fst kv)) \<union> set (checkEntries lp kvs path)"
    by (rule Un_mono)
  then show ?case by simp
next
  case (9 lp path i)
  show ?case by simp
next
  case (10 lp x xs path i)
  have "set (checkPath lp' x (path @ ''.'' @ string_of_nat i)) \<subseteq> set (checkPath lp x (path @ ''.'' @ string_of_nat i))"
    using "10.prems" by (rule "10.IH"(1))
  moreover have "set (checkItems lp' xs path (Suc i)) \<subseteq> set (checkItems lp xs path (Suc i))"
    using "10.prems" by (rule "10.IH"(2))
  ultimately have "set (checkPath lp' x (path @ ''.'' @ string_of_nat i)) \<union> set (checkItems lp' xs path (Suc i))
      \<subseteq> set (checkPath lp x (path @ ''.'' @ string_of_nat i)) \<union> set (checkItems lp xs path (Suc i))"
    by (rule Un_mono)
  then show ?case by simp
qed

lemma checkTop_in_locked: "set (checkTop lp es) \<subseteq> set lp"
proof (induction es)
  case Nil
  show ?case by simp
next
  case (Cons e es)
  then show ?case using checkPath_in_locked(1) [of lp "snd e" "fst e"] by simp
qed

lemma checkTop_mono: "set lp' \<subseteq> set lp \<Longrightarrow> set (checkTop lp' es) \<subseteq> set (checkTop lp es)"
proof (induction es)
  case Nil
  show ?case by simp
next
  case (Cons e es)
  have "set (checkPath lp' (snd e) (fst e)) \<subseteq> set (checkPath lp (snd e) (fst e))"
    using Cons.prems by (rule checkPath_mono(1))
  moreover have "set (checkTop lp' es) \<subseteq> set (checkTop lp es)"
    using Cons.prems by (rule Cons.IH)
  ultimately have "set (checkPath lp' (snd e) (fst e)) \<union> set (checkTop lp' es)
      \<subseteq> set (checkPath lp (snd e) (fst e)) \<union> set (checkTop lp es)"
    by (rule Un_mono)
  then show ?case by simp
qed


lemma updateState_locked_all_or_nothing:
  "getLockedProperties m u \<noteq> [] \<Longrightarrow> ev = None \<or> ev = Some (version (state m)) \<Longrightarrow>
     updateState now a u ev m =
       (m, \<lparr> success = False, newVersion = version (state m),
              conflicts = Some (map locked_message (getLockedProperties m u)) \<rparr>)"
  by (auto simp add: updateState_def Let_def)

subsection \<open>The scenario states\<close>

lemma m_locked_fields:
  "locks m_locked = [(''lock_1'', lock_1)]"
  "timers m_locked = [(5100, ''lock_1'')]"
  "locked_properties (state m_locked) = [''design.width'']"
  "version (state m_locked) = 0"
  "map snap_version (snapshots m_locked) = [0]"
  by (simp_all add: m_locked_def acquireLock_def new_manager_def saveSnapshot_def Let_def
        lock_conflicts_for_def initializeState_def set_add_def lock_1_def LOCK_TIMEOUT_def
        MAX_HISTORY_SIZE_def)

lemma granted_m_locked:
  "granted (snd (acquireLock 100 ''lock_1'' ''A'' [''design.width''] (new_manager 0)))"
  by (simp add: acquireLock_def new_manager_def saveSnapshot_def Let_def lock_conflicts_for_def)

lemma height_not_locked:
  "locked_properties (state m) = [''design.width''] \<Longrightarrow> getLockedProperties m upd_height = []"
  by (simp add: getLockedProperties_def updates_entries_def opt_entry_def upd_height_def hit_def)

lemma width_locked:
  "locked_properties (state m) = [''design.width''] \<Longrightarrow>
     getLockedProperties m upd_width = [''design.width'']"
  by (simp add: getLockedProperties_def updates_entries_def opt_entry_def upd_width_def hit_def)

lemma width_rejected:
  "locked_properties (state m) = [''design.width''] \<Longrightarrow>
     updateState now a upd_width None m =
       (m, \<lparr> success = False, newVersion = version (state m),
              conflicts = Some [''Property design.width is locked''] \<rparr>)"
  by (simp add: updateState_def width_locked locked_message_def)

text \<open>
  Claim C3.  Worker A is granted the lock on \<^verbatim>\<open>design.width\<close>.  A write of the width by
  another worker B is then rejected with the one conflict entry of the locked path and
  leaves the store as it was; but the same write by A, the owner of the lock, is rejected
  in the same way: \<open>getLockedProperties\<close> looks the path up in \<open>locked_properties\<close> and
  never asks who holds the lock.
\<close>

theorem C3_lock_owner_is_rejected_too:
  "granted (snd (acquireLock 100 ''lock_1'' ''A'' [''design.width''] (new_manager 0)))
   \<and> updateState 200 ''B'' upd_width None m_locked =
       (m_locked, \<lparr> success = False, newVersion = 0,
                     conflicts = Some [''Property design.width is locked''] \<rparr>)
   \<and> updateState 200 ''A'' upd_width None m_locked =
       (m_locked, \<lparr> success = False, newVersion = 0,
                     conflicts = Some [''Property design.width is locked''] \<rparr>)"
  using width_rejected [of m_locked 200 "''A''"] width_rejected [of m_locked 200 "''B''"]
  by (simp add: m_locked_fields granted_m_locked)

subsection \<open>Frames of an accepted update\<close>

lemma saveSnapshot_frame:
  "locks (saveSnapshot now m) = locks m" "timers (saveSnapshot now m) = timers m"
  by (simp_all add: saveSnapshot_def Let_def)

lemma applyUpdates_frame:
  "locks (applyUpdates now a u m) = locks m"
  "timers (applyUpdates now a u m) = timers m"
  "locked_properties (state (applyUpdates now a u m)) = locked_properties (state m)"
  by (simp_all add: applyUpdates_def Let_def state_saveSnapshot saveSnapshot_frame
        split: prod.splits option.splits)

lemma applyUpdates_snapshots:
  "snapshots (applyUpdates now a u m) =
     (if (version (state m) + 1) mod 10 = 0
      then snapshots (saveSnapshot now (m\<lparr>state := state (applyUpdates now a u m)\<rparr>))
      else snapshots m)"
  by (simp add: applyUpdates_def Let_def state_saveSnapshot saveSnapshot_def
        split: prod.splits option.splits)

lemma step_height:
  "locked_properties (state m) = [''design.width''] \<Longrightarrow>
     updateState 200 ''B'' upd_height None m =
       (applyUpdates 200 ''B'' upd_height m,
        \<lparr> success = True, newVersion = version (state m) + 1, conflicts = None \<rparr>)"
  by (simp add: updateState_def height_not_locked Let_def version_applyUpdates)

lemma run_height:
  "locked_properties (state m) = [''design.width''] \<Longrightarrow>
     locked_properties (state (fst (run_updates (replicate n call_height) m))) = [''design.width'']
     \<and> version (state (fst (run_updates (replicate n call_height) m))) = version (state m) + n
     \<and> locks (fst (run_updates (replicate n call_height) m)) = locks m
     \<and> timers (fst (run_updates (replicate n call_height) m)) = timers m
     \<and> (version (state m) + n < 10 \<longrightarrow>
          snapshots (fst (run_updates (replicate n call_height) m)) = snapshots m)"
proof (induction n arbitrary: m)
  case 0
  then show ?case by simp
next
  case (Suc n)
  let ?m1 = "applyUpdates 200 ''B'' upd_height m"
  have l1: "locked_properties (state ?m1) = [''design.width'']"
    using Suc.prems by (simp add: applyUpdates_frame)
  have st: "fst (run_updates (replicate (Suc n) call_height) m) =
      fst (run_updates (replicate n call_height) ?m1)"
    using step_height [OF Suc.prems] by (simp add: call_height_def split: prod.splits)
  have sn: "version (state m) + Suc n < 10 \<Longrightarrow> snapshots ?m1 = snapshots m"
    by (simp add: applyUpdates_snapshots)
  show ?case unfolding st using Suc.IH [OF l1] sn
    by (simp add: version_applyUpdates applyUpdates_frame)
qed

lemma fst_run_updates_Cons:
  "fst (run_updates (c # cs) m) =
     fst (run_updates cs (fst (updateState (c_now c) (c_agent c) (c_updates c) (c_expected c) m)))"
  by (simp split: prod.splits)

lemma run_updates_append:
  "fst (run_updates (xs @ ys) m) = fst (run_updates ys (fst (run_updates xs m)))"
proof (induction xs arbitrary: m)
  case Nil
  show ?case by simp
next
  case (Cons c xs)
  show ?case unfolding append_Cons fst_run_updates_Cons by (rule Cons.IH)
qed

lemma m_nine_fields:
  "locked_properties (state m_nine) = [''design.width'']"
  "version (state m_nine) = 9"
  "locks m_nine = [(''lock_1'', lock_1)]"
  "timers m_nine = [(5100, ''lock_1'')]"
  "map snap_version (snapshots m_nine) = [0]"
  using run_height [of m_locked 9] by (simp_all add: m_nine_def m_locked_fields)

lemma m_ten_step: "m_ten = applyUpdates 200 ''B'' upd_height m_nine"
proof -
  have n: "(10::nat) = Suc 9" by simp
  have e: "replicate 10 call_height = replicate 9 call_height @ [call_height]"
    by (simp only: n replicate_Suc replicate_append_same)
  have "m_ten = fst (run_updates [call_height] m_nine)"
    unfolding m_ten_def m_nine_def e run_updates_append ..
  then show ?thesis
    using step_height [of m_nine] by (simp add: m_nine_fields call_height_def)
qed

lemma m_ten_fields:
  "locked_properties (state m_ten) = [''design.width'']"
  "version (state m_ten) = 10"
  "locks m_ten = [(''lock_1'', lock_1)]"
  "timers m_ten = [(5100, ''lock_1'')]"
  by (simp_all add: m_ten_step applyUpdates_frame version_applyUpdates m_nine_fields)

lemma m_ten_snapshot:
  "find (\<lambda>s. snap_version s = 10) (snapshots m_ten) =
     Some \<lparr> snap_version = 10, snap_timestamp = 200, snap_state = state m_ten \<rparr>"
proof -
  obtain s0 where s0: "snapshots m_nine = [s0]" "snap_version s0 = 0"
    using m_nine_fields(5) by (cases "snapshots m_nine") auto
  have "snapshots m_ten = [s0, \<lparr> snap_version = 10, snap_timestamp = 200, snap_state = state m_ten \<rparr>]"
    using m_ten_fields(2)
    by (simp add: m_ten_step applyUpdates_snapshots m_nine_fields s0 saveSnapshot_def Let_def
          MAX_HISTORY_SIZE_def deepClone_def)
  then show ?thesis using s0 by simp
qed

lemma m_rolled_fields:
  "snd (rollbackToVersion 10 m_ten)"
  "locks m_rolled = []"
  "state m_rolled = state m_ten"
  "timers m_rolled = [(5100, ''lock_1'')]"
  by (simp_all add: m_rolled_def rollbackToVersion_def m_ten_snapshot Let_def deepClone_def m_ten_fields)

lemma runTimers_no_locks: "locks m = [] \<Longrightarrow> state (runTimers now m) = state m"
  by (simp add: runTimers_def fire_no_locks)

lemma rollbackToVersion_none:
  "find (\<lambda>s. snap_version s = v) (snapshots m) = None \<Longrightarrow> rollbackToVersion v m = (m, False)"
  by (simp add: rollbackToVersion_def)

lemma rollbackToVersion_some:
  "find (\<lambda>s. snap_version s = v) (snapshots m) = Some sn \<Longrightarrow>
     snd (rollbackToVersion v m)
     \<and> locks (fst (rollbackToVersion v m)) = []
     \<and> getState (fst (rollbackToVersion v m)) = snap_state sn"
  by (simp add: rollbackToVersion_def Let_def getState_def deepClone_def)

lemma rollbackToVersion_succeeds_iff:
  "snd (rollbackToVersion v m) \<longleftrightarrow> (\<exists>sn \<in> set (snapshots m). snap_version sn = v)"
proof (cases "find (\<lambda>s. snap_version s = v) (snapshots m)")
  case None
  then have "\<not> (\<exists>sn \<in> set (snapshots m). snap_version sn = v)"
    by (simp add: find_None_iff)
  then show ?thesis using None by (simp add: rollbackToVersion_def)
next
  case (Some sn)
  then obtain i where "i < length (snapshots m)" "snap_version (snapshots m ! i) = v"
    by (auto simp add: find_Some_iff)
  then have "\<exists>sn \<in> set (snapshots m). snap_version sn = v"
    using nth_mem by blast
  then show ?thesis using Some by (simp add: rollbackToVersion_def Let_def)
qed

text \<open>
  Claim C8.  After worker A has locked \<^verbatim>\<open>design.width\<close> and ten writes of the height have
  brought the store to version 10, \<open>rollbackToVersion 10\<close> succeeds and empties the lock
  table, but the state it restores is the snapshot's, whose \<open>locked_properties\<close> still
  hold \<^verbatim>\<open>design.width\<close>.  From then on a write of the width is rejected as locked at every
  time \<open>t\<close>, however late, and there is no lock left to release.
\<close>

theorem C8_rollback_restores_locked_properties:
  "snd (rollbackToVersion 10 m_ten)
   \<and> locks m_rolled = []
   \<and> design (state m_rolled) = design (state m_ten)
   \<and> constraints (state m_rolled) = constraints (state m_ten)
   \<and> version (state m_rolled) = 10
   \<and> locked_properties (state m_rolled) = [''design.width'']
   \<and> snd (updateState t ''B'' upd_width None (runTimers t m_rolled)) =
       \<lparr> success = False, newVersion = 10, conflicts = Some [''Property design.width is locked''] \<rparr>
   \<and> releaseLock ''lock_1'' m_rolled = (m_rolled, False)"
proof -
  have lp: "locked_properties (state (runTimers t m_rolled)) = [''design.width'']"
    by (simp add: runTimers_no_locks m_rolled_fields m_ten_fields)
  have v: "version (state (runTimers t m_rolled)) = 10"
    by (simp add: runTimers_no_locks m_rolled_fields m_ten_fields)
  show ?thesis
    using width_rejected [OF lp, of t "''B''"] v
    by (simp add: m_rolled_fields m_ten_fields releaseLock_def)
qed


subsection \<open>Expiry\<close>

lemma runTimers_fields:
  "state (runTimers now m) = state (fire_timers (filter (\<lambda>t. fst t \<le> now) (timers m)) m)"
  "locks (runTimers now m) = locks (fire_timers (filter (\<lambda>t. fst t \<le> now) (timers m)) m)"
  by (simp_all add: runTimers_def)

lemma due_timer_in_filter:
  "(d, lid) \<in> set (timers m) \<Longrightarrow> d \<le> now \<Longrightarrow>
     lid \<in> snd ` set (filter (\<lambda>t. fst t \<le> now) (timers m))"
  by force

lemma runTimers_released:
  "(d, lid) \<in> set (timers m) \<Longrightarrow> d \<le> now \<Longrightarrow> map_of (locks (runTimers now m)) lid = None"
  by (simp only: runTimers_fields) (rule fire_releases, rule due_timer_in_filter)

lemma runTimers_unlocks:
  assumes "map_of (locks m) lid = Some l" and "(d, lid) \<in> set (timers m)" and "d \<le> now"
  shows "set (locked_properties (state (runTimers now m))) \<inter> set (properties l) = {}"
  unfolding runTimers_fields
  using assms(1) due_timer_in_filter [OF assms(2) assms(3)] by (rule fire_unlocks)

lemma runTimers_locked_subset:
  "set (locked_properties (state (runTimers now m))) \<subseteq> set (locked_properties (state m))"
  unfolding runTimers_fields by (rule fire_locked_subset)

lemma runTimers_version: "version (state (runTimers now m)) = version (state m)"
  unfolding runTimers_fields by (rule fire_version)

lemma runTimers_locks_subset: "set (locks (runTimers now m)) \<subseteq> set (locks m)"
  unfolding runTimers_fields by (rule fire_locks_subset)

lemma no_conflict_if_expired:
  assumes "\<forall>il \<in> set ls. P \<in> set (properties (snd il)) \<longrightarrow> expiresAt (snd il) \<le> now"
  shows "lock_conflicts_for now B ls P = []"
  using assms by (induction ls) (auto simp add: lock_conflicts_for_def)

lemma acquire_granted_if_no_conflict:
  "lock_conflicts_for now B (locks m) P = [] \<Longrightarrow> granted (snd (acquireLock now newId B [P] m))"
  by (simp add: acquireLock_def Let_def)

lemma acquireLock_sets_timer:
  "granted (snd (acquireLock now newId a ps m)) \<Longrightarrow>
     map_of (locks (fst (acquireLock now newId a ps m))) newId =
       Some \<lparr> lock_id = newId, lock_agent = a, properties = fold set_add ps [],
              acquiredAt = now, expiresAt = now + LOCK_TIMEOUT \<rparr>
     \<and> (now + LOCK_TIMEOUT, newId) \<in> set (timers (fst (acquireLock now newId a ps m)))"
  by (simp add: acquireLock_def Let_def update_conv' split: if_splits)

text \<open>
  Once the auto-release callback of a lock has run, the lock no longer excludes anyone.
  Let \<open>l\<close> be a lock in the lock table, held by another worker than \<open>B\<close>, whose
  auto-release timer is pending, and let the time \<open>now\<close> be at or past \<open>expiresAt l\<close>.
  On the store in which the callbacks due at \<open>now\<close> have run, a write by \<open>B\<close> that was held
  back by paths of this lock only succeeds, given no expected version or the current one;
  and when \<open>l\<close> is the only lock on the path \<open>P\<close>, \<open>B\<close> is granted a lock on \<open>P\<close>, both
  before and after the callback has run.
\<close>

lemma auto_release_admits_other_workers:
  assumes "map_of (locks m) lid = Some l"
    and "P \<in> set (properties l)"
    and "lock_agent l \<noteq> B"
    and "(expiresAt l, lid) \<in> set (timers m)"
    and "expiresAt l \<le> now"
    and "P \<in> set (getLockedProperties m u)"
    and "set (getLockedProperties m u) \<subseteq> set (properties l)"
    and "ev = None \<or> ev = Some (version (state m))"
    and "\<forall>il \<in> set (locks m). P \<in> set (properties (snd il)) \<longrightarrow> snd il = l"
  shows "success (snd (updateState now B u ev (runTimers now m)))
       \<and> version (state (fst (updateState now B u ev (runTimers now m)))) = version (state m) + 1
       \<and> granted (snd (acquireLock now newId B [P] m))
       \<and> granted (snd (acquireLock now newId B [P] (runTimers now m)))"
proof -
  let ?m' = "runTimers now m"
  have sub: "set (locked_properties (state ?m')) \<subseteq> set (locked_properties (state m))"
    by (rule runTimers_locked_subset)
  have dis: "set (locked_properties (state ?m')) \<inter> set (properties l) = {}"
    using assms(1) assms(4) assms(5) by (rule runTimers_unlocks)
  have a: "set (getLockedProperties ?m' u) \<subseteq> set (getLockedProperties m u)"
    unfolding getLockedProperties_def using sub by (rule checkTop_mono)
  have b: "set (getLockedProperties ?m' u) \<subseteq> set (locked_properties (state ?m'))"
    unfolding getLockedProperties_def by (rule checkTop_in_locked)
  have "set (getLockedProperties ?m' u) \<subseteq> {}"
    using a b dis assms(7) by blast
  then have none: "getLockedProperties ?m' u = []" by simp
  have ok: "success (snd (updateState now B u ev ?m'))"
    using assms(8) none by (auto simp add: updateState_def Let_def runTimers_version)
  have v: "version (state (fst (updateState now B u ev ?m'))) = version (state m) + 1"
    using updateState_version [of now B u ev ?m'] ok by (simp add: runTimers_version)
  have e1: "\<forall>il \<in> set (locks m). P \<in> set (properties (snd il)) \<longrightarrow> expiresAt (snd il) \<le> now"
    using assms(9) assms(5) by auto
  have e2: "\<forall>il \<in> set (locks ?m'). P \<in> set (properties (snd il)) \<longrightarrow> expiresAt (snd il) \<le> now"
    using e1 runTimers_locks_subset [of now m] by blast
  have g1: "granted (snd (acquireLock now newId B [P] m))"
    using no_conflict_if_expired [OF e1] by (rule acquire_granted_if_no_conflict)
  have g2: "granted (snd (acquireLock now newId B [P] ?m'))"
    using no_conflict_if_expired [OF e2] by (rule acquire_granted_if_no_conflict)
  show ?thesis using ok v g1 g2 by simp
qed

lemma map_of_m_locked: "map_of (locks m_locked) ''lock_1'' = Some lock_1"
  by (simp add: m_locked_fields)

lemma runTimers_early: "\<forall>t \<in> set (timers m). now < fst t \<Longrightarrow> state (runTimers now m) = state m"
proof -
  assume a: "\<forall>t \<in> set (timers m). now < fst t"
  have "filter (\<lambda>t. fst t \<le> now) (timers m) = []"
    using a by (auto simp add: filter_empty_conv)
  then show ?thesis by (simp add: runTimers_def fire_timers_def)
qed

lemma auto_release_example:
  "snd (updateState 5099 ''B'' upd_width (Some 0) (runTimers 5099 m_locked)) =
      \<lparr> success = False, newVersion = 0, conflicts = Some [''Property design.width is locked''] \<rparr>
   \<and> \<not> granted (snd (acquireLock 5099 ''lock_2'' ''B'' [''design.width''] m_locked))
   \<and> success (snd (updateState 5100 ''B'' upd_width (Some 0) (runTimers 5100 m_locked)))
   \<and> version (state (fst (updateState 5100 ''B'' upd_width (Some 0) (runTimers 5100 m_locked)))) = 1
   \<and> granted (snd (acquireLock 5100 ''lock_2'' ''B'' [''design.width''] m_locked))
   \<and> granted (snd (acquireLock 5100 ''lock_2'' ''B'' [''design.width''] (runTimers 5100 m_locked)))"
proof -
  have st: "state (runTimers 5099 m_locked) = state m_locked"
    by (rule runTimers_early) (simp add: m_locked_fields)
  have lp: "getLockedProperties (runTimers 5099 m_locked) upd_width = [''design.width'']"
    by (rule width_locked) (simp add: st m_locked_fields)
  have before: "snd (updateState 5099 ''B'' upd_width (Some 0) (runTimers 5099 m_locked)) =
      \<lparr> success = False, newVersion = 0, conflicts = Some [''Property design.width is locked''] \<rparr>"
    by (simp add: updateState_def lp st m_locked_fields locked_message_def)
  have nog: "\<not> granted (snd (acquireLock 5099 ''lock_2'' ''B'' [''design.width''] m_locked))"
    by (simp add: acquireLock_def m_locked_fields lock_conflicts_for_def lock_1_def Let_def)
  have h6: "set (getLockedProperties m_locked upd_width) \<subseteq> set (properties lock_1)"
    using width_locked [OF m_locked_fields(3)] by (simp add: lock_1_def)
  have h6': "''design.width'' \<in> set (getLockedProperties m_locked upd_width)"
    using width_locked [OF m_locked_fields(3)] by simp
  have p2: "''design.width'' \<in> set (properties lock_1)" by (simp add: lock_1_def)
  have p3: "lock_agent lock_1 \<noteq> ''B''" by (simp add: lock_1_def)
  have p4: "(expiresAt lock_1, ''lock_1'') \<in> set (timers m_locked)"
    by (simp add: m_locked_fields lock_1_def)
  have p5: "expiresAt lock_1 \<le> 5100" by (simp add: lock_1_def)
  have p8: "Some 0 = None \<or> Some 0 = Some (version (state m_locked))"
    by (simp add: m_locked_fields)
  have p9: "\<forall>il \<in> set (locks m_locked). ''design.width'' \<in> set (properties (snd il)) \<longrightarrow> snd il = lock_1"
    by (simp add: m_locked_fields)
  have after: "success (snd (updateState 5100 ''B'' upd_width (Some 0) (runTimers 5100 m_locked)))
       \<and> version (state (fst (updateState 5100 ''B'' upd_width (Some 0) (runTimers 5100 m_locked)))) = version (state m_locked) + 1
       \<and> granted (snd (acquireLock 5100 ''lock_2'' ''B'' [''design.width''] m_locked))
       \<and> granted (snd (acquireLock 5100 ''lock_2'' ''B'' [''design.width''] (runTimers 5100 m_locked)))"
    using map_of_m_locked p2 p3 p4 p5 h6' h6 p8 p9
    by (rule auto_release_admits_other_workers)
  show ?thesis using before nog after by (simp add: m_locked_fields)
qed

text \<open>
  Claim C4.  Worker A's lock on \<^verbatim>\<open>design.width\<close>, acquired at time 100, expires at 5100,
  and A never releases it.  At every time from 5100 on a competing \<open>acquireLock\<close> by
  worker B on that path is granted, for \<open>acquireLock\<close> compares the time with \<open>expiresAt\<close>.
  But \<open>updateState\<close> consults \<open>locked_properties\<close> only: on the store as \<open>acquireLock\<close> left
  it, that is as long as the auto-release callback has not run, B's write of the width,
  presenting the current version, is rejected as locked at every such time.  And after
  the rollback to version 10 the callback finds no lock to release: the write is rejected
  at every such time also on the store in which all due callbacks have run, while a
  competing \<open>acquireLock\<close> is granted there.
\<close>

theorem C4_expired_lock_still_excludes_writes:
  "map_of (locks m_locked) ''lock_1'' = Some lock_1
   \<and> lock_agent lock_1 = ''A''
   \<and> expiresAt lock_1 = 5100
   \<and> granted (snd (acquireLock (5100 + d) newId ''B'' [''design.width''] m_locked))
   \<and> updateState (5100 + d) ''B'' upd_width (Some 0) m_locked =
       (m_locked, \<lparr> success = False, newVersion = 0,
                     conflicts = Some [''Property design.width is locked''] \<rparr>)
   \<and> granted (snd (acquireLock (5100 + d) newId ''B'' [''design.width''] (runTimers (5100 + d) m_rolled)))
   \<and> snd (updateState (5100 + d) ''B'' upd_width (Some 10) (runTimers (5100 + d) m_rolled)) =
       \<lparr> success = False, newVersion = 10, conflicts = Some [''Property design.width is locked''] \<rparr>"
proof -
  have g1: "granted (snd (acquireLock (5100 + d) newId ''B'' [''design.width''] m_locked))"
    by (simp add: acquireLock_def m_locked_fields lock_conflicts_for_def lock_1_def Let_def)
  have w1: "updateState (5100 + d) ''B'' upd_width (Some 0) m_locked =
       (m_locked, \<lparr> success = False, newVersion = 0,
                     conflicts = Some [''Property design.width is locked''] \<rparr>)"
    using width_rejected [OF m_locked_fields(3), of "5100 + d" "''B''"]
          updateState_current_is_none [of "5100 + d" "''B''" upd_width m_locked]
    by (simp add: m_locked_fields)
  let ?m = "runTimers (5100 + d) m_rolled"
  have st: "state ?m = state m_rolled"
    by (rule runTimers_no_locks) (rule m_rolled_fields)
  have lk: "locks ?m = []"
    using runTimers_locks_subset [of "5100 + d" m_rolled] by (simp add: m_rolled_fields)
  have g2: "granted (snd (acquireLock (5100 + d) newId ''B'' [''design.width''] ?m))"
    by (simp add: acquireLock_def lk lock_conflicts_for_def Let_def)
  have lp: "locked_properties (state ?m) = [''design.width'']"
    by (simp add: st m_rolled_fields m_ten_fields)
  have v: "version (state ?m) = 10"
    by (simp add: st m_rolled_fields m_ten_fields)
  have w2: "snd (updateState (5100 + d) ''B'' upd_width (Some 10) ?m) =
       \<lparr> success = False, newVersion = 10, conflicts = Some [''Property design.width is locked''] \<rparr>"
    using width_rejected [OF lp, of "5100 + d" "''B''"]
          updateState_current_is_none [of "5100 + d" "''B''" upd_width ?m] v
    by simp
  show ?thesis using g1 w1 g2 w2 by (simp add: map_of_m_locked lock_1_def)
qed

text \<open>
  Claim C9, as stated, fails for a lock that has expired but is still in the lock table.
  The lock of worker A expires at 5100; on the store as \<open>acquireLock\<close> left it, which is the
  store at a later time such as 6000 as long as the auto-release callback has not run,
  \<open>releaseLock\<close> returns true and removes the lock and its path: it does not look at
  \<open>expiresAt\<close>.
\<close>

theorem C9_counterexample:
  "map_of (locks m_locked) ''lock_1'' = Some lock_1
   \<and> expiresAt lock_1 < 6000
   \<and> snd (releaseLock ''lock_1'' m_locked) = True
   \<and> locks m_locked = [(''lock_1'', lock_1)]
   \<and> locks (fst (releaseLock ''lock_1'' m_locked)) = []
   \<and> locked_properties (state m_locked) = [''design.width'']
   \<and> locked_properties (state (fst (releaseLock ''lock_1'' m_locked))) = []"
  by (simp add: releaseLock_def m_locked_fields lock_1_def Let_def)

text \<open>
  Claim C9, amended.  \<open>releaseLock\<close> goes by the lock table alone.  For an id that is not in
  the table it returns false and leaves the whole store as it is; that is the case for an
  unknown id, for an id that has been released (a second release of the same id returns
  false and changes nothing), and for a lock that its auto-release callback has removed:
  with the lock's timer pending, on the store in which the callbacks due at a time at or
  past its expiry have run, a release returns false.  For an id that is in the table it
  returns true and takes the lock out of the table, whatever the lock's expiry time.
\<close>

theorem C9_releaseLock_idempotent:
  "(map_of (locks m) lid = None \<longrightarrow> releaseLock lid m = (m, False))
   \<and> (map_of (locks m) lid \<noteq> None \<longrightarrow>
        snd (releaseLock lid m) \<and> map_of (locks (fst (releaseLock lid m))) lid = None)
   \<and> releaseLock lid (fst (releaseLock lid m)) = (fst (releaseLock lid m), False)
   \<and> (map_of (locks m) lid = Some l \<and> (expiresAt l, lid) \<in> set (timers m) \<and> expiresAt l \<le> now
        \<longrightarrow> releaseLock lid (runTimers now m) = (runTimers now m, False))"
proof -
  have a: "map_of (locks m) lid = None \<longrightarrow> releaseLock lid m = (m, False)"
    by (simp add: releaseLock_unknown)
  have gone: "map_of (locks (fst (releaseLock lid m))) lid = None"
    by (simp add: locks_after_release)
  have b: "map_of (locks m) lid \<noteq> None \<longrightarrow>
        snd (releaseLock lid m) \<and> map_of (locks (fst (releaseLock lid m))) lid = None"
    using gone by (auto simp add: releaseLock_known)
  have c: "releaseLock lid (fst (releaseLock lid m)) = (fst (releaseLock lid m), False)"
    using gone by (rule releaseLock_unknown)
  have d: "map_of (locks m) lid = Some l \<and> (expiresAt l, lid) \<in> set (timers m) \<and> expiresAt l \<le> now
        \<longrightarrow> releaseLock lid (runTimers now m) = (runTimers now m, False)"
    using runTimers_released [of "expiresAt l" lid m now] by (auto intro: releaseLock_unknown)
  show ?thesis using a b c d by blast
qed

theorem C9_witness:
  "releaseLock ''lock_0'' m_locked = (m_locked, False)
   \<and> snd (releaseLock ''lock_1'' m_locked)
   \<and> locks (fst (releaseLock ''lock_1'' m_locked)) = []
   \<and> releaseLock ''lock_1'' (fst (releaseLock ''lock_1'' m_locked)) =
       (fst (releaseLock ''lock_1'' m_locked), False)
   \<and> releaseLock ''lock_1'' (runTimers 5100 m_locked) = (runTimers 5100 m_locked, False)"
proof -
  have n: "map_of (locks m_locked) ''lock_0'' = None"
    by (simp add: m_locked_fields)
  have e: "locks (fst (releaseLock ''lock_1'' m_locked)) = []"
    by (simp add: releaseLock_def m_locked_fields Let_def)
  show ?thesis
    using C9_releaseLock_idempotent [of m_locked "''lock_0''" lock_1 5100]
          C9_releaseLock_idempotent [of m_locked "''lock_1''" lock_1 5100] n e
    by (simp add: m_locked_fields lock_1_def)
qed


section \<open>Properties of the message bus\<close>

subsection \<open>The queue bound\<close>

lemma addToQueue_full:
  "length (messageQueue b) \<ge> MAX_QUEUE_SIZE \<Longrightarrow> addToQueue now msg prio dfd b = Inl queue_full"
  by (simp add: addToQueue_def)

lemma addToQueue_room:
  "length (messageQueue b) < MAX_QUEUE_SIZE \<Longrightarrow>
     addToQueue now msg prio dfd b =
       Inr (b\<lparr>messageQueue := messageQueue b @
              [\<lparr> message = msg, priority = prio, q_timestamp = now, retries = 0, deferred = dfd \<rparr>]\<rparr>)"
  by (simp add: addToQueue_def)

lemma getFromCache_queue: "messageQueue (fst (getFromCache now key b)) = messageQueue b"
  by (simp add: getFromCache_def split: option.splits)

lemma query_enqueue_full:
  "length (messageQueue b) \<ge> MAX_QUEUE_SIZE \<Longrightarrow>
     query_enqueue now f t q timeout prio b = (b, Rejected queue_full)"
  by (simp add: query_enqueue_def addToQueue_full Let_def)

lemma sort_queue_replicate: "sort_queue (replicate n x) = replicate n x"
proof (induction n)
  case 0
  show ?case by (simp add: sort_queue_def)
next
  case (Suc n)
  have "insert_item x (replicate n x) = x # replicate n x"
    by (cases n) simp_all
  then show ?case using Suc by (simp add: sort_queue_def)
qed

lemma enqueue_many_room:
  "length (messageQueue b) + n \<le> MAX_QUEUE_SIZE \<Longrightarrow>
     enqueue_many n now msg b =
       Inr (b\<lparr>messageQueue := messageQueue b @
              replicate n \<lparr> message = msg, priority = 1, q_timestamp = now, retries = 0, deferred = True \<rparr>\<rparr>)"
proof (induction n arbitrary: b)
  case 0
  show ?case by simp
next
  case (Suc n)
  let ?b1 = "b\<lparr>messageQueue := messageQueue b @
              [\<lparr> message = msg, priority = 1, q_timestamp = now, retries = 0, deferred = True \<rparr>]\<rparr>"
  have room: "length (messageQueue b) < MAX_QUEUE_SIZE" using Suc.prems by simp
  have "length (messageQueue ?b1) + n \<le> MAX_QUEUE_SIZE" using Suc.prems by simp
  then have "enqueue_many n now msg ?b1 =
       Inr (?b1\<lparr>messageQueue := messageQueue ?b1 @
              replicate n \<lparr> message = msg, priority = 1, q_timestamp = now, retries = 0, deferred = True \<rparr>\<rparr>)"
    by (rule Suc.IH)
  then show ?case
    by (simp add: addToQueue_room [OF room] replicate_append_same)
qed

text \<open>
  Claim C10, as stated, fails in two places.  Take a bus whose cache holds an answer and
  on which 1000 queries have been enqueued.  A query for the cached answer is served
  from the cache: no error is raised.  And a tick takes ten of the 1000 entries off the
  queue; ten callers then enqueue while the first of the ten is being processed (each
  passes the check of \<open>addToQueue\<close>); when that processing fails, the retry is pushed
  onto a queue that holds 1000 entries already, which makes 1001.
\<close>

theorem C10_counterexample:
  "enqueue_many 1000 0 full_message cached_bus = Inr full_bus
   \<and> length (messageQueue full_bus) = MAX_QUEUE_SIZE
   \<and> query_begin 7 ''orchestrator'' ''material_agent'' (JStr ''q'') None None full_bus =
        (full_bus, Cached (JStr ''oak''))
   \<and> length (messageQueue (fst (tick_begin full_bus))) = 990
   \<and> snd (tick_begin full_bus) = replicate 10 full_item
   \<and> (\<exists>b. enqueue_many 10 0 full_message (fst (tick_begin full_bus)) = Inr b
          \<and> length (messageQueue b) = 1000
          \<and> length (messageQueue (fst (processMessage full_item (Inl ''failed'') b))) = 1001)"
proof -
  have t: "tick_begin full_bus =
      (full_bus\<lparr>messageQueue := replicate 990 full_item, isProcessing := True\<rparr>, replicate 10 full_item)"
    by (simp add: tick_begin_def full_bus_def cached_bus_def sort_queue_replicate Let_def)
  have q: "query_begin 7 ''orchestrator'' ''material_agent'' (JStr ''q'') None None full_bus =
        (full_bus, Cached (JStr ''oak''))"
    by (simp add: query_begin_def getCacheKey_def getFromCache_def full_bus_def cached_bus_def
          CACHE_TTL_def Let_def)
  have l: "length (messageQueue full_bus) = MAX_QUEUE_SIZE"
    by (simp add: full_bus_def MAX_QUEUE_SIZE_def)
  have e0: "enqueue_many 1000 0 full_message cached_bus = Inr full_bus"
    using enqueue_many_room [of cached_bus 1000 0 full_message]
    by (simp add: cached_bus_def full_bus_def MAX_QUEUE_SIZE_def full_item_def)
  let ?b1 = "full_bus\<lparr>messageQueue := replicate 990 full_item, isProcessing := True\<rparr>"
  let ?b2 = "?b1\<lparr>messageQueue := messageQueue ?b1 @ replicate 10 full_item\<rparr>"
  have e1: "enqueue_many 10 0 full_message ?b1 = Inr ?b2"
    using enqueue_many_room [of ?b1 10 0 full_message]
    by (simp add: MAX_QUEUE_SIZE_def full_item_def)
  have l2: "length (messageQueue ?b2) = 1000" by simp
  have r: "length (messageQueue (fst (processMessage full_item (Inl ''failed'') ?b2))) = 1001"
    by (simp add: processMessage_def full_bus_def cached_bus_def full_item_def full_message_def
          MAX_RETRIES_def)
  have ex: "\<exists>b. enqueue_many 10 0 full_message (fst (tick_begin full_bus)) = Inr b
          \<and> length (messageQueue b) = 1000
          \<and> length (messageQueue (fst (processMessage full_item (Inl ''failed'') b))) = 1001"
    unfolding t fst_conv using e1 l2 r by blast
  show ?thesis using e0 l q ex by (simp add: t)
qed

lemma getFromCache_hit:
  "snd (getFromCache now key b) = Some r \<Longrightarrow> getFromCache now key b = (b, Some r)"
  by (auto simp add: getFromCache_def split: option.splits if_splits)

lemma query_begin_hit:
  "snd (getFromCache now (getCacheKey f t q) b) = Some r \<Longrightarrow> r \<noteq> JNull \<Longrightarrow>
     query_begin now f t q timeout p b = (b, Cached r)"
  by (simp add: query_begin_def getFromCache_hit Let_def)

lemma query_begin_miss:
  "snd (getFromCache now (getCacheKey f t q) b) = None
     \<or> snd (getFromCache now (getCacheKey f t q) b) = Some JNull \<Longrightarrow>
   query_begin now f t q timeout p b =
     query_enqueue now f t q timeout p (fst (getFromCache now (getCacheKey f t q) b))"
  by (cases "getFromCache now (getCacheKey f t q) b") (auto simp add: query_begin_def Let_def)

lemma query_enqueue_room:
  "length (messageQueue b) < MAX_QUEUE_SIZE \<Longrightarrow>
     snd (query_enqueue now f t q timeout p b) = Enqueued
     \<and> length (messageQueue (fst (query_enqueue now f t q timeout p b))) = length (messageQueue b) + 1"
  by (simp add: query_enqueue_def addToQueue_room Let_def)

text \<open>
  Claim C10, amended.  \<open>addToQueue\<close> never enqueues onto a queue that holds \<open>MAX_QUEUE_SIZE\<close>
  = 1000 entries or more: it raises \<^verbatim>\<open>Message queue is full\<close>.  Below that bound it appends
  one entry, so a queue within the bound stays within it.  A query that is not served
  from the cache (nothing is cached for it, the cached entry has expired, or the cached
  answer is \<^verbatim>\<open>null\<close>) while the queue is full is rejected with that error before anything
  is enqueued; it neither waits for a time-out nor reaches the target lookup.  Below the
  bound such a query enqueues one message.  A query whose answer is cached, not expired
  and not \<^verbatim>\<open>null\<close>, is answered from the cache and leaves the bus as it is, whatever the
  length of the queue.
\<close>

theorem C10_addToQueue_respects_bound:
  "MAX_QUEUE_SIZE = 1000
   \<and> (length (messageQueue b) \<ge> MAX_QUEUE_SIZE \<longrightarrow> addToQueue now msg prio dfd b = Inl queue_full)
   \<and> (length (messageQueue b) < MAX_QUEUE_SIZE \<longrightarrow>
        (\<exists>b'. addToQueue now msg prio dfd b = Inr b'
          \<and> length (messageQueue b') = length (messageQueue b) + 1
          \<and> length (messageQueue b') \<le> MAX_QUEUE_SIZE))
   \<and> (length (messageQueue b) \<ge> MAX_QUEUE_SIZE
        \<and> (snd (getFromCache now (getCacheKey f t q) b) = None
            \<or> snd (getFromCache now (getCacheKey f t q) b) = Some JNull) \<longrightarrow>
        snd (query_begin now f t q timeout p b) = Rejected queue_full
        \<and> messageQueue (fst (query_begin now f t q timeout p b)) = messageQueue b)
   \<and> (length (messageQueue b) < MAX_QUEUE_SIZE
        \<and> (snd (getFromCache now (getCacheKey f t q) b) = None
            \<or> snd (getFromCache now (getCacheKey f t q) b) = Some JNull) \<longrightarrow>
        snd (query_begin now f t q timeout p b) = Enqueued
        \<and> length (messageQueue (fst (query_begin now f t q timeout p b))) = length (messageQueue b) + 1)
   \<and> (snd (getFromCache now (getCacheKey f t q) b) = Some r \<and> r \<noteq> JNull \<longrightarrow>
        query_begin now f t q timeout p b = (b, Cached r))"
proof -
  let ?b1 = "fst (getFromCache now (getCacheKey f t q) b)"
  have l: "messageQueue ?b1 = messageQueue b"
    by (rule getFromCache_queue)
  have a: "length (messageQueue b) \<ge> MAX_QUEUE_SIZE \<longrightarrow> addToQueue now msg prio dfd b = Inl queue_full"
    by (simp add: addToQueue_full)
  have b: "length (messageQueue b) < MAX_QUEUE_SIZE \<longrightarrow>
        (\<exists>b'. addToQueue now msg prio dfd b = Inr b'
          \<and> length (messageQueue b') = length (messageQueue b) + 1
          \<and> length (messageQueue b') \<le> MAX_QUEUE_SIZE)"
    by (simp add: addToQueue_room)
  have c: "length (messageQueue b) \<ge> MAX_QUEUE_SIZE
        \<and> (snd (getFromCache now (getCacheKey f t q) b) = None
            \<or> snd (getFromCache now (getCacheKey f t q) b) = Some JNull) \<longrightarrow>
        snd (query_begin now f t q timeout p b) = Rejected queue_full
        \<and> messageQueue (fst (query_begin now f t q timeout p b)) = messageQueue b"
  proof (intro impI, elim conjE)
    assume full: "MAX_QUEUE_SIZE \<le> length (messageQueue b)"
      and miss: "snd (getFromCache now (getCacheKey f t q) b) = None
            \<or> snd (getFromCache now (getCacheKey f t q) b) = Some JNull"
    have full1: "MAX_QUEUE_SIZE \<le> length (messageQueue ?b1)" using full l by simp
    have "query_begin now f t q timeout p b = (?b1, Rejected queue_full)"
      unfolding query_begin_miss [OF miss] using full1 by (rule query_enqueue_full)
    then show "snd (query_begin now f t q timeout p b) = Rejected queue_full
        \<and> messageQueue (fst (query_begin now f t q timeout p b)) = messageQueue b"
      using l by simp
  qed
  have d: "length (messageQueue b) < MAX_QUEUE_SIZE
        \<and> (snd (getFromCache now (getCacheKey f t q) b) = None
            \<or> snd (getFromCache now (getCacheKey f t q) b) = Some JNull) \<longrightarrow>
        snd (query_begin now f t q timeout p b) = Enqueued
        \<and> length (messageQueue (fst (query_begin now f t q timeout p b))) = length (messageQueue b) + 1"
  proof (intro impI, elim conjE)
    assume room: "length (messageQueue b) < MAX_QUEUE_SIZE"
      and miss: "snd (getFromCache now (getCacheKey f t q) b) = None
            \<or> snd (getFromCache now (getCacheKey f t q) b) = Some JNull"
    have room1: "length (messageQueue ?b1) < MAX_QUEUE_SIZE" using room l by simp
    show "snd (query_begin now f t q timeout p b) = Enqueued
        \<and> length (messageQueue (fst (query_begin now f t q timeout p b))) = length (messageQueue b) + 1"
      unfolding query_begin_miss [OF miss] using query_enqueue_room [OF room1, of now f t q timeout p] l
      by simp
  qed
  have e: "snd (getFromCache now (getCacheKey f t q) b) = Some r \<and> r \<noteq> JNull \<longrightarrow>
        query_begin now f t q timeout p b = (b, Cached r)"
    by (simp add: query_begin_hit)
  show ?thesis using a b c d e by (simp add: MAX_QUEUE_SIZE_def)
qed

theorem C10_witness:
  "addToQueue 7 full_message 1 True full_bus = Inl ''Message queue is full''
   \<and> (\<exists>b'. addToQueue 7 full_message 1 True new_bus = Inr b' \<and> length (messageQueue b') = 1)
   \<and> query_begin 7 ''orchestrator'' ''joinery_agent'' (JStr ''q'') None None full_bus =
        (full_bus, Rejected ''Message queue is full'')
   \<and> snd (query_begin 7 ''orchestrator'' ''joinery_agent'' (JStr ''q'') None None new_bus) = Enqueued
   \<and> length (messageQueue (fst (query_begin 7 ''orchestrator'' ''joinery_agent'' (JStr ''q'') None None new_bus))) = 1
   \<and> query_begin 7 ''orchestrator'' ''material_agent'' (JStr ''q'') None None full_bus =
        (full_bus, Cached (JStr ''oak''))"
proof -
  have f: "length (messageQueue full_bus) \<ge> MAX_QUEUE_SIZE"
    by (simp add: full_bus_def cached_bus_def MAX_QUEUE_SIZE_def)
  have e: "length (messageQueue new_bus) < MAX_QUEUE_SIZE"
    by (simp add: new_bus_def MAX_QUEUE_SIZE_def)
  have m: "getFromCache 7 (getCacheKey ''orchestrator'' ''joinery_agent'' (JStr ''q'')) full_bus = (full_bus, None)"
    by (simp add: getFromCache_def getCacheKey_def full_bus_def cached_bus_def)
  have n: "getFromCache 7 (getCacheKey ''orchestrator'' ''joinery_agent'' (JStr ''q'')) new_bus = (new_bus, None)"
    by (simp add: getFromCache_def getCacheKey_def new_bus_def)
  have h: "getFromCache 7 (getCacheKey ''orchestrator'' ''material_agent'' (JStr ''q'')) full_bus =
      (full_bus, Some (JStr ''oak''))"
    by (simp add: getFromCache_def getCacheKey_def full_bus_def cached_bus_def CACHE_TTL_def)
  have q: "fst (query_begin 7 ''orchestrator'' ''joinery_agent'' (JStr ''q'') None None full_bus) = full_bus"
    by (simp add: query_begin_def m query_enqueue_full [OF f] Let_def)
  have w1: "addToQueue 7 full_message 1 True full_bus = Inl ''Message queue is full''
      \<and> query_begin 7 ''orchestrator'' ''joinery_agent'' (JStr ''q'') None None full_bus =
        (full_bus, Rejected ''Message queue is full'')"
    using C10_addToQueue_respects_bound [of full_bus 7 full_message 1 True "''orchestrator''" "''joinery_agent''" "JStr ''q''" None None JNull]
          f m q
    by (auto simp add: queue_full_def prod_eq_iff)
  have w2: "(\<exists>b'. addToQueue 7 full_message 1 True new_bus = Inr b' \<and> length (messageQueue b') = 1)
      \<and> snd (query_begin 7 ''orchestrator'' ''joinery_agent'' (JStr ''q'') None None new_bus) = Enqueued
      \<and> length (messageQueue (fst (query_begin 7 ''orchestrator'' ''joinery_agent'' (JStr ''q'') None None new_bus))) = 1"
    using C10_addToQueue_respects_bound [of new_bus 7 full_message 1 True "''orchestrator''" "''joinery_agent''" "JStr ''q''" None None JNull]
          e n
    by (auto simp add: new_bus_def)
  have w3: "query_begin 7 ''orchestrator'' ''material_agent'' (JStr ''q'') None None full_bus =
        (full_bus, Cached (JStr ''oak''))"
    using C10_addToQueue_respects_bound [of full_bus 7 full_message 1 True "''orchestrator''" "''material_agent''" "JStr ''q''" None None "JStr ''oak''"]
          h
    by simp
  show ?thesis using w1 w2 w3 by simp
qed


subsection \<open>requestValidation\<close>

lemma getFromCache_agents: "bus_agents (fst (getFromCache now key b)) = bus_agents b"
  by (simp add: getFromCache_def split: option.splits)

lemma getFromCache_keeps_miss:
  "map_of (queryCache b) k = None \<Longrightarrow> map_of (queryCache (fst (getFromCache now key b))) k = None"
  by (simp add: getFromCache_def delete_conv' split: option.splits)

lemma getFromCache_miss:
  "map_of (queryCache b) key = None \<Longrightarrow> getFromCache now key b = (b, None)"
  by (simp add: getFromCache_def)

lemma query_enqueue_agents: "bus_agents (fst (query_enqueue now f t q timeout prio b)) = bus_agents b"
  by (simp add: query_enqueue_def addToQueue_def Let_def)

lemma query_begin_agents: "bus_agents (fst (query_begin now f t q timeout prio b)) = bus_agents b"
proof -
  obtain b1 c where g: "getFromCache now (getCacheKey f t q) b = (b1, c)"
    by (cases "getFromCache now (getCacheKey f t q) b")
  have "bus_agents b1 = bus_agents b"
    using getFromCache_agents [of now "getCacheKey f t q" b] g by simp
  then show ?thesis
    by (simp add: query_begin_def g Let_def query_enqueue_agents split: option.splits)
qed

lemma query_begin_full_queue:
  "length (messageQueue b) \<ge> MAX_QUEUE_SIZE \<Longrightarrow>
     messageQueue (fst (query_begin now f t q timeout prio b)) = messageQueue b"
proof -
  assume full: "length (messageQueue b) \<ge> MAX_QUEUE_SIZE"
  obtain b1 c where g: "getFromCache now (getCacheKey f t q) b = (b1, c)"
    by (cases "getFromCache now (getCacheKey f t q) b")
  have l: "messageQueue b1 = messageQueue b"
    using getFromCache_queue [of now "getCacheKey f t q" b] g by simp
  then have "length (messageQueue b1) \<ge> MAX_QUEUE_SIZE" using full by simp
  then show ?thesis
    using l by (simp add: query_begin_def g Let_def query_enqueue_full split: option.splits)
qed

lemma query_begin_keeps_miss:
  "length (messageQueue b) \<ge> MAX_QUEUE_SIZE \<Longrightarrow> map_of (queryCache b) k = None \<Longrightarrow>
     map_of (queryCache (fst (query_begin now f t q timeout prio b))) k = None"
proof -
  assume full: "length (messageQueue b) \<ge> MAX_QUEUE_SIZE" and miss: "map_of (queryCache b) k = None"
  obtain b1 c where g: "getFromCache now (getCacheKey f t q) b = (b1, c)"
    by (cases "getFromCache now (getCacheKey f t q) b")
  have l: "messageQueue b1 = messageQueue b"
    using getFromCache_queue [of now "getCacheKey f t q" b] g by simp
  have m: "map_of (queryCache b1) k = None"
    using getFromCache_keeps_miss [OF miss, of now "getCacheKey f t q"] g by simp
  have "length (messageQueue b1) \<ge> MAX_QUEUE_SIZE" using full l by simp
  then show ?thesis
    using m by (simp add: query_begin_def g Let_def query_enqueue_full split: option.splits)
qed

lemma query_begin_full_miss:
  "length (messageQueue b) \<ge> MAX_QUEUE_SIZE \<Longrightarrow> map_of (queryCache b) (getCacheKey f t q) = None \<Longrightarrow>
     query_begin now f t q timeout prio b = (b, Rejected queue_full)"
  by (simp add: query_begin_def getFromCache_miss query_enqueue_full Let_def)

lemma keys_update: "fst ` set (AList.update k v al) = insert k (fst ` set al)"
  by (induction al) auto

lemma keys_compile_results:
  "fst ` set (compile_results es acc) = fst ` set acc \<union> {a. \<exists>r. Some (a, r) \<in> set es}"
proof (induction es acc rule: compile_results.induct)
  case (1 results)
  show ?case by simp
next
  case (2 rs results)
  then show ?case by auto
next
  case (3 ar rs results)
  have "fst ` set (compile_results (Some ar # rs) results) =
      insert (fst ar) (fst ` set results) \<union> {a. \<exists>r. Some (a, r) \<in> set rs}"
    using 3 by (simp add: keys_update)
  also have "\<dots> = fst ` set results \<union> {a. \<exists>r. Some (a, r) \<in> set (Some ar # rs)}"
    by (cases ar) auto
  finally show ?case .
qed

lemma callbacks_keys:
  "{a. \<exists>r. Some (a, r) \<in> set (snd (run_callbacks now d race i vs b))} =
     {v \<in> set vs. map_of (bus_agents b) v \<noteq> None}"
proof (induction vs arbitrary: i b)
  case Nil
  show ?case by simp
next
  case (Cons v vs)
  show ?case
  proof (cases "map_of (bus_agents b) v")
    case None
    obtain b' rs where r: "run_callbacks now d race (Suc i) vs b = (b', rs)"
      by (cases "run_callbacks now d race (Suc i) vs b")
    have "{a. \<exists>r. Some (a, r) \<in> set rs} = {v \<in> set vs. map_of (bus_agents b) v \<noteq> None}"
      using Cons.IH [of "Suc i" b] r by simp
    then show ?thesis using None r by auto
  next
    case (Some ag)
    obtain b1 st where q: "query_begin now ''orchestrator'' v (validate_query d) None (Some 2) b = (b1, st)"
      by (cases "query_begin now ''orchestrator'' v (validate_query d) None (Some 2) b")
    obtain b2 rs where r: "run_callbacks now d race (Suc i) vs b1 = (b2, rs)"
      by (cases "run_callbacks now d race (Suc i) vs b1")
    have ag1: "bus_agents b1 = bus_agents b"
      using query_begin_agents [of now "''orchestrator''" v "validate_query d" None "Some 2" b] q by simp
    have "{a. \<exists>r. Some (a, r) \<in> set rs} = {v \<in> set vs. map_of (bus_agents b) v \<noteq> None}"
      using Cons.IH [of "Suc i" b1] r ag1 by simp
    then show ?thesis using Some q r by (auto simp add: Let_def)
  qed
qed

lemma requestValidation_keys:
  "fst ` set (snd (requestValidation now d vs race b)) = {v \<in> set vs. map_of (bus_agents b) v \<noteq> None}"
proof -
  obtain b' rs where r: "run_callbacks now d race 0 vs b = (b', rs)"
    by (cases "run_callbacks now d race 0 vs b")
  have "fst ` set (compile_results rs []) = {a. \<exists>r. Some (a, r) \<in> set rs}"
    by (simp add: keys_compile_results)
  then show ?thesis
    using callbacks_keys [of now d race 0 vs b] r by (simp add: requestValidation_def)
qed

text \<open>With a full queue and nothing cached for it, every callback of a registered validator yields the failure.\<close>

lemma map_of_compile_results:
  "(\<And>r. Some (v, r) \<in> set es \<Longrightarrow> r = x) \<Longrightarrow> (\<exists>r. Some (v, r) \<in> set es) \<Longrightarrow>
     map_of (compile_results es acc) v = Some x"
proof (induction es acc rule: compile_results.induct)
  case (1 results)
  then show ?case by simp
next
  case (2 rs results)
  then show ?case by simp
next
  case (3 ar rs results)
  show ?case
  proof (cases "\<exists>r. Some (v, r) \<in> set rs")
    case True
    have "\<And>r. Some (v, r) \<in> set rs \<Longrightarrow> r = x" using "3.prems"(1) by simp
    then have "map_of (compile_results rs (AList.update (fst ar) (snd ar) results)) v = Some x"
      using True by (rule "3.IH")
    then show ?thesis by simp
  next
    case False
    then have ar: "ar = (v, x)" using "3.prems" by (cases ar) auto
    have stay: "\<And>acc. map_of acc v = Some x \<Longrightarrow> map_of (compile_results rs acc) v = Some x"
      using False
    proof (induction rs)
      case Nil
      then show ?case by simp
    next
      case (Cons e rs)
      show ?case
      proof (cases e)
        case None
        then show ?thesis using Cons by simp
      next
        case (Some br)
        have ne: "fst br \<noteq> v" using Cons.prems(2) Some by (cases br) auto
        have "map_of (AList.update (fst br) (snd br) acc) v = Some x"
          using ne Cons.prems(1) by (simp add: update_conv')
        moreover have "\<nexists>r. Some (v, r) \<in> set rs" using Cons.prems(2) by auto
        ultimately have "map_of (compile_results rs (AList.update (fst br) (snd br) acc)) v = Some x"
          using Cons.IH by blast
        then show ?thesis using Some by simp
      qed
    qed
    have "map_of (AList.update v x results) v = Some x" by (simp add: update_conv')
    then have "map_of (compile_results rs (AList.update v x results)) v = Some x" by (rule stay)
    then show ?thesis using ar by simp
  qed
qed

lemma callbacks_full_queue:
  assumes "length (messageQueue b) \<ge> MAX_QUEUE_SIZE"
    and "map_of (queryCache b) (getCacheKey ''orchestrator'' v (validate_query d)) = None"
    and "Some (v, r) \<in> set (snd (run_callbacks now d race i vs b))"
  shows "r = validation_failure v queue_full"
  using assms
proof (induction vs arbitrary: i b)
  case Nil
  then show ?case by simp
next
  case (Cons w vs)
  show ?case
  proof (cases "map_of (bus_agents b) w")
    case None
    obtain b' rs where rc: "run_callbacks now d race (Suc i) vs b = (b', rs)"
      by (cases "run_callbacks now d race (Suc i) vs b")
    have "Some (v, r) \<in> set rs" using Cons.prems(3) None rc by simp
    then have "Some (v, r) \<in> set (snd (run_callbacks now d race (Suc i) vs b))" using rc by simp
    with Cons.prems(1) Cons.prems(2) show ?thesis by (rule Cons.IH)
  next
    case (Some ag)
    obtain b1 st where q: "query_begin now ''orchestrator'' w (validate_query d) None (Some 2) b = (b1, st)"
      by (cases "query_begin now ''orchestrator'' w (validate_query d) None (Some 2) b")
    obtain b2 rs where rc: "run_callbacks now d race (Suc i) vs b1 = (b2, rs)"
      by (cases "run_callbacks now d race (Suc i) vs b1")
    have f1: "length (messageQueue b1) \<ge> MAX_QUEUE_SIZE"
      using query_begin_full_queue [OF Cons.prems(1), of now "''orchestrator''" w "validate_query d" None "Some 2"]
            q Cons.prems(1) by simp
    have m1: "map_of (queryCache b1) (getCacheKey ''orchestrator'' v (validate_query d)) = None"
      using query_begin_keeps_miss [OF Cons.prems(1) Cons.prems(2), of now "''orchestrator''" w "validate_query d" None "Some 2"]
            q by simp
    let ?r = "case st of Cached c \<Rightarrow> c | Rejected err \<Rightarrow> validation_failure w err
                | Enqueued \<Rightarrow> query_value ''orchestrator'' w (validate_query d) (race i)"
    have mem: "(v, r) = (w, ?r) \<or> Some (v, r) \<in> set rs"
      using Cons.prems(3) Some q rc by (auto simp add: Let_def)
    show ?thesis
    proof (cases "Some (v, r) \<in> set rs")
      case True
      then have "Some (v, r) \<in> set (snd (run_callbacks now d race (Suc i) vs b1))" using rc by simp
      with f1 m1 show ?thesis by (rule Cons.IH)
    next
      case False
      then have vw: "v = w" and rr: "r = ?r" using mem by auto
      have "query_begin now ''orchestrator'' w (validate_query d) None (Some 2) b = (b, Rejected queue_full)"
        using Cons.prems(1) Cons.prems(2) vw by (simp add: query_begin_full_miss)
      then have "st = Rejected queue_full" using q by simp
      then show ?thesis using rr vw by simp
    qed
  qed
qed


lemma requestValidation_full_queue:
  assumes full: "length (messageQueue b) \<ge> MAX_QUEUE_SIZE"
    and mem: "v \<in> set vs" and reg: "map_of (bus_agents b) v \<noteq> None"
    and miss: "map_of (queryCache b) (getCacheKey ''orchestrator'' v (validate_query d)) = None"
  shows "map_of (snd (requestValidation now d vs race b)) v = Some (validation_failure v queue_full)"
proof -
  obtain b' rs where r: "run_callbacks now d race 0 vs b = (b', rs)"
    by (cases "run_callbacks now d race 0 vs b")
  have "v \<in> {a. \<exists>r. Some (a, r) \<in> set (snd (run_callbacks now d race 0 vs b))}"
    unfolding callbacks_keys using mem reg by simp
  then have ex: "\<exists>x. Some (v, x) \<in> set rs" using r by simp
  have all: "\<And>x. Some (v, x) \<in> set rs \<Longrightarrow> x = validation_failure v queue_full"
    using callbacks_full_queue [OF full miss, of _ now race 0 vs] r by simp
  have "map_of (compile_results rs []) v = Some (validation_failure v queue_full)"
    using all ex by (rule map_of_compile_results)
  then show ?thesis using r by (simp add: requestValidation_def)
qed

lemma validation_failure_invalid:
  "\<exists>fields. validation_failure v err = JObj fields \<and> map_of fields ''valid'' = Some (JBool False)"
  by (simp add: validation_failure_def)

lemma fallback_is_no_failure: "handleQueryError f t q err \<noteq> validation_failure v err'"
  by (simp add: handleQueryError_def validation_failure_def)

text \<open>
  Claim C7.  The four default validators are registered with a bus whose queue and cache
  are empty, and the query sent to the second of them, the material worker, fails with
  the error \<open>err\<close> (a time-out, or a processing error after the retries) while the others
  answer.  The batch is not aborted and the other three results are in the map, but
  the material worker's entry is the default material that \<^verbatim>\<open>query\<close> itself falls back to,
  not a failure result: \<^verbatim>\<open>query\<close> has caught the error, so the \<^verbatim>\<open>catch\<close> block of
  \<^verbatim>\<open>requestValidation\<close> does not see it.  For the validation worker the entry is the generic
  fallback, which has no \<^verbatim>\<open>valid\<close> field either; no fallback of \<^verbatim>\<open>query\<close> is ever the
  synthesized failure.  The \<^verbatim>\<open>catch\<close> block does its work when \<^verbatim>\<open>query\<close> rejects, as on a
  full queue: then the entry is the failure result, with \<^verbatim>\<open>valid\<close> false.
\<close>

theorem C7_failing_validator_gets_query_fallback:
  "snd (requestValidation now d default_validators
          (\<lambda>i. if i = 1 then Inl err else Inr (JObj [(''valid'', JBool True)])) team_bus) =
     [(''dimension_agent'', JObj [(''valid'', JBool True)]),
      (''material_agent'',
         JObj [(''material'', JStr ''pine''), (''reason'', JStr ''fallback_default''),
               (''properties'', JObj [(''cost'', JStr ''low''), (''workability'', JStr ''easy'')])]),
      (''joinery_agent'', JObj [(''valid'', JBool True)]),
      (''validation_agent'', JObj [(''valid'', JBool True)])]
   \<and> snd (requestValidation now d [''validation_agent''] (\<lambda>i. Inl err) team_bus) =
       [(''validation_agent'',
         JObj [(''success'', JBool False), (''error'', JStr err), (''fallback'', JBool True)])]
   \<and> handleQueryError ''orchestrator'' v (validate_query d) err \<noteq> validation_failure v err'
   \<and> snd (requestValidation now d [''validation_agent''] race busy_bus) =
       [(''validation_agent'', validation_failure ''validation_agent'' ''Message queue is full'')]
   \<and> (\<exists>fields. validation_failure ''validation_agent'' ''Message queue is full'' = JObj fields
         \<and> map_of fields ''valid'' = Some (JBool False))"
proof -
  have a: "snd (requestValidation now d default_validators
          (\<lambda>i. if i = 1 then Inl err else Inr (JObj [(''valid'', JBool True)])) team_bus) =
     [(''dimension_agent'', JObj [(''valid'', JBool True)]),
      (''material_agent'',
         JObj [(''material'', JStr ''pine''), (''reason'', JStr ''fallback_default''),
               (''properties'', JObj [(''cost'', JStr ''low''), (''workability'', JStr ''easy'')])]),
      (''joinery_agent'', JObj [(''valid'', JBool True)]),
      (''validation_agent'', JObj [(''valid'', JBool True)])]"
    by (simp add: requestValidation_def default_validators_def team_bus_def new_bus_def
          query_begin_def getFromCache_def getCacheKey_def query_enqueue_def addToQueue_def
          MAX_QUEUE_SIZE_def query_value_def handleQueryError_def Let_def)
  have b: "snd (requestValidation now d [''validation_agent''] (\<lambda>i. Inl err) team_bus) =
       [(''validation_agent'',
         JObj [(''success'', JBool False), (''error'', JStr err), (''fallback'', JBool True)])]"
    by (simp add: requestValidation_def default_validators_def team_bus_def new_bus_def
          query_begin_def getFromCache_def getCacheKey_def query_enqueue_def addToQueue_def
          MAX_QUEUE_SIZE_def query_value_def handleQueryError_def Let_def)
  have full: "length (messageQueue busy_bus) \<ge> MAX_QUEUE_SIZE"
    by (simp add: busy_bus_def full_bus_def cached_bus_def MAX_QUEUE_SIZE_def)
  have miss: "map_of (queryCache busy_bus) (getCacheKey ''orchestrator'' ''validation_agent'' (validate_query d)) = None"
    by (simp add: busy_bus_def full_bus_def cached_bus_def getCacheKey_def)
  have reg: "map_of (bus_agents busy_bus) ''validation_agent'' = Some (worker ''validation_agent'')"
    by (simp add: busy_bus_def)
  have q: "query_begin now ''orchestrator'' ''validation_agent'' (validate_query d) None (Some 2) busy_bus =
      (busy_bus, Rejected queue_full)"
    using full miss by (rule query_begin_full_miss)
  have c: "snd (requestValidation now d [''validation_agent''] race busy_bus) =
       [(''validation_agent'', validation_failure ''validation_agent'' ''Message queue is full'')]"
    by (simp add: requestValidation_def reg q queue_full_def)
  show ?thesis
    using a b c fallback_is_no_failure [of "''orchestrator''" v "validate_query d" err v err']
          validation_failure_invalid [of "''validation_agent''" "''Message queue is full''"]
    by simp
qed


subsection \<open>resolveConflict\<close>








lemma find_winner_error: "find_winner vs mx w = Inl e \<Longrightarrow> e = ''SyntaxError''"
  by (induction vs arbitrary: mx w) (auto split: if_splits option.splits)


















section \<open>Properties of the coordinator\<close>

lemmas rule_defs = shelf_applies_def shelf_validate_def joint_validate_def stability_applies_def
  stability_validate_def str_or_def num_or_def first_of_def dimension_of_def calculateMaxSpan_def
  spanTable_def estimateLoad_def typeLoads_def calculateJointStrength_def strengthTable_def Let_def

lemma mdf_span: "calculateMaxSpan ''mdf'' (3/4) = 24"
  by (simp add: calculateMaxSpan_def spanTable_def)

lemma mdf_span_knowledge_graph: "getMaxSpan ''mdf'' (3/4) = 20"
  by (simp add: getMaxSpan_def spanTables_def)

lemma bookshelf_conflicts:
  "detectConflicts bookshelf_design =
     [\<lparr> dc_type = ''shelf_deflection'', dc_severity = ''high'',
        dc_fix = bookshelf_design\<lparr>dimensions := Some [(''width'', 24), (''height'', 72), (''depth'', 12)]\<rparr> \<rparr>,
      \<lparr> dc_type = ''stability'', dc_severity = ''high'',
        dc_fix = bookshelf_design\<lparr>features := Some [''anti-tip hardware'']\<rparr> \<rparr>]"
  by (simp add: detectConflicts_def validationRules_def rule_conflicts_def compatibility_conflicts_def
        bookshelf_design_def rule_defs)

lemma bookshelf_invalid:
  "validateCompleteDesign bookshelf_design =
     \<lparr> isValid = False, issues = [''shelf_deflection'', ''stability''], score = 1/2 \<rparr>"
  by (simp add: validateCompleteDesign_def validationRules_def bookshelf_design_def rule_defs)

lemma narrowed_invalid:
  "validateCompleteDesign (bookshelf_design\<lparr>dimensions := Some [(''width'', 24), (''height'', 72), (''depth'', 12)]\<rparr>) =
     \<lparr> isValid = False, issues = [''stability''], score = 1/2 \<rparr>"
  by (simp add: validateCompleteDesign_def validationRules_def bookshelf_design_def rule_defs)

lemma anti_tip_invalid:
  "validateCompleteDesign (bookshelf_design\<lparr>features := Some [''anti-tip hardware'']\<rparr>) =
     \<lparr> isValid = False, issues = [''shelf_deflection'', ''stability''], score = 1/2 \<rparr>"
  by (simp add: validateCompleteDesign_def validationRules_def bookshelf_design_def rule_defs)

text \<open>
  Claim C5.  For the bookshelf of scenario A (width 48, height 72, depth 12, mdf,
  thickness 3/4) the rule \<^verbatim>\<open>shelf_deflection\<close> applies and fails, and \<open>detectConflicts\<close>
  reports it with high severity.  But the coordinator's span table has no row for mdf:
  \<open>calculateMaxSpan\<close> falls back to the row of pine and yields 24, where the span table of
  the knowledge graph gives 20 for mdf of this thickness.  The automatic fix sets the
  width to 24 and leaves material and thickness as they are.  The design is not valid
  before the conflicts are resolved, nor after \<open>resolveConflicts\<close> in either order of the
  two conflicts.
\<close>

theorem C5_mdf_shelf_is_fixed_to_the_pine_span:
  "shelf_applies bookshelf_design
   \<and> \<not> rr_valid (shelf_validate bookshelf_design)
   \<and> calculateMaxSpan ''mdf'' (3/4) = 24
   \<and> getMaxSpan ''mdf'' (3/4) = 20
   \<and> map dc_type (detectConflicts bookshelf_design) = [''shelf_deflection'', ''stability'']
   \<and> map dc_severity (detectConflicts bookshelf_design) = [''high'', ''high'']
   \<and> dimension_of (dc_fix (hd (detectConflicts bookshelf_design))) ''width'' = Some 24
   \<and> materials (dc_fix (hd (detectConflicts bookshelf_design))) = Some [''mdf'']
   \<and> boardThickness (dc_fix (hd (detectConflicts bookshelf_design))) = Some (3/4)
   \<and> \<not> isValid (validateCompleteDesign bookshelf_design)
   \<and> \<not> isValid (validateCompleteDesign (resolveConflicts bookshelf_design (detectConflicts bookshelf_design)))
   \<and> \<not> isValid (validateCompleteDesign (resolveConflicts bookshelf_design (rev (detectConflicts bookshelf_design))))"
proof -
  have a: "shelf_applies bookshelf_design \<and> \<not> rr_valid (shelf_validate bookshelf_design)"
    by (simp add: bookshelf_design_def rule_defs)
  have b: "dimension_of (dc_fix (hd (detectConflicts bookshelf_design))) ''width'' = Some 24
      \<and> materials (dc_fix (hd (detectConflicts bookshelf_design))) = Some [''mdf'']
      \<and> boardThickness (dc_fix (hd (detectConflicts bookshelf_design))) = Some (3/4)"
    by (simp add: bookshelf_conflicts dimension_of_def) (simp add: bookshelf_design_def)
  have c: "\<not> isValid (validateCompleteDesign (resolveConflicts bookshelf_design (detectConflicts bookshelf_design)))"
    by (simp add: bookshelf_conflicts resolveConflicts_def anti_tip_invalid)
  have d: "\<not> isValid (validateCompleteDesign (resolveConflicts bookshelf_design (rev (detectConflicts bookshelf_design))))"
    by (simp add: bookshelf_conflicts resolveConflicts_def narrowed_invalid)
  show ?thesis
    using a b c d by (simp add: mdf_span mdf_span_knowledge_graph bookshelf_conflicts bookshelf_invalid)
qed


end
